theory Spec2Isabelle
  imports Complex_Main
begin

section \<open>JavaScript values\<close>

text \<open>
  The library validates the properties of a plain JavaScript object, so the model starts
  with the values such a property can hold. A number is a double: not-a-number, one of
  the two infinities, or a finite rational (both zeros are \<open>Fin 0\<close>; no operation of the
  library tells them apart). Objects (arrays, dates, regular expressions) are opaque
  references; a string is a list of characters and its \<open>length\<close> the length of that
  list.
\<close>

datatype jsnum = NaN | PosInf | NegInf | Fin rat

datatype js_value =
    Undefined
  | Null
  | Boolean bool
  | Number jsnum
  | String string
  | Object nat

text \<open>
  What the library takes from its surroundings: the string classifiers of
  \<open>ringo/utils/strings\<close>, the date parser of \<open>ringo/utils/dates\<close>, and the
  engine's \<open>parseInt\<close>, \<open>parseFloat\<close>, string-to-number conversion and
  object-to-primitive conversion. None of them is code of the library, so the
  definitions below take them as a parameter \<open>h\<close> and the theorems are stated for an
  arbitrary \<open>h\<close>.
\<close>

record host =
  strings_isAlpha :: "string \<Rightarrow> bool"
  strings_isAlphanumeric :: "string \<Rightarrow> bool"
  strings_isDateFormat :: "string \<Rightarrow> bool"
  strings_isEmail :: "string \<Rightarrow> bool"
  strings_isFileName :: "string \<Rightarrow> bool"
  strings_isFloat :: "string \<Rightarrow> bool"
  strings_isHexColor :: "string \<Rightarrow> bool"
  strings_isInt :: "string \<Rightarrow> bool"
  strings_isNumeric :: "string \<Rightarrow> bool"
  strings_isUrl :: "string \<Rightarrow> bool"
  dates_parse :: "js_value \<Rightarrow> js_value \<Rightarrow> js_value \<Rightarrow> js_value \<Rightarrow> js_value \<Rightarrow> js_value"
  parseInt :: "js_value \<Rightarrow> js_value \<Rightarrow> js_value"
  parseFloat :: "js_value \<Rightarrow> js_value"
  stringToNumber :: "string \<Rightarrow> jsnum"
  toPrimitive :: "nat \<Rightarrow> js_value"

subsection \<open>Operators of the language the source uses\<close>

text \<open>\<open>typeof v\<close>. (A callable object would answer \<open>function\<close>; the library only ever
  compares the answer with \<open>string\<close> and \<open>number\<close>.)\<close>

fun typeof :: "js_value \<Rightarrow> string" where
  "typeof Undefined = ''undefined''"
| "typeof Null = ''object''"
| "typeof (Boolean b) = ''boolean''"
| "typeof (Number n) = ''number''"
| "typeof (String x) = ''string''"
| "typeof (Object a) = ''object''"

text \<open>Truthiness, as \<open>!v\<close>, \<open>if (v)\<close> and \<open>a || b\<close> read it.\<close>

fun truthy :: "js_value \<Rightarrow> bool" where
  "truthy Undefined = False"
| "truthy Null = False"
| "truthy (Boolean b) = b"
| "truthy (Number n) = (n \<noteq> NaN \<and> n \<noteq> Fin 0)"
| "truthy (String x) = (x \<noteq> [])"
| "truthy (Object a) = True"

definition js_or :: "js_value \<Rightarrow> js_value \<Rightarrow> js_value" where
  "js_or a b = (if truthy a then a else b)"

text \<open>\<open>a === b\<close>: equal values of one type, except that not-a-number equals nothing;
  objects are equal when they are the same object.\<close>

definition strict_eq :: "js_value \<Rightarrow> js_value \<Rightarrow> bool" where
  "strict_eq a b = (a = b \<and> a \<noteq> Number NaN)"

text \<open>\<open>a == b\<close>: a boolean operand is read as 0 or 1, an object compared with a
  string or a number is converted to a primitive first, a string compared with a number
  is converted to a number, and \<open>null\<close> and \<open>undefined\<close> equal each other and nothing
  else. (The host's \<open>toPrimitive\<close> is expected to answer a primitive.)\<close>

definition bool_to_number :: "js_value \<Rightarrow> js_value" where
  "bool_to_number v = (case v of Boolean b \<Rightarrow> Number (Fin (if b then 1 else 0)) | _ \<Rightarrow> v)"

definition string_or_number :: "js_value \<Rightarrow> bool" where
  "string_or_number v = (case v of String x \<Rightarrow> True | Number n \<Rightarrow> True | _ \<Rightarrow> False)"

fun loose_eq_primitive :: "host \<Rightarrow> js_value \<Rightarrow> js_value \<Rightarrow> bool" where
  "loose_eq_primitive h Undefined Undefined = True"
| "loose_eq_primitive h Undefined Null = True"
| "loose_eq_primitive h Null Undefined = True"
| "loose_eq_primitive h Null Null = True"
| "loose_eq_primitive h (Number a) (Number b) = (a = b \<and> a \<noteq> NaN)"
| "loose_eq_primitive h (String x) (String y) = (x = y)"
| "loose_eq_primitive h (Number a) (String y) = (a = stringToNumber h y \<and> a \<noteq> NaN)"
| "loose_eq_primitive h (String x) (Number b) = (stringToNumber h x = b \<and> b \<noteq> NaN)"
| "loose_eq_primitive h a b = False"

definition loose_eq :: "host \<Rightarrow> js_value \<Rightarrow> js_value \<Rightarrow> bool" where
  "loose_eq h a b =
     (case (a, b) of
        (Object x, Object y) \<Rightarrow> x = y
      | _ \<Rightarrow>
          (let a1 = bool_to_number a;
               b1 = bool_to_number b;
               a2 = (case a1 of
                       Object x \<Rightarrow> (if string_or_number b1 then bool_to_number (toPrimitive h x) else a1)
                     | _ \<Rightarrow> a1);
               b2 = (case b1 of
                       Object y \<Rightarrow> (if string_or_number a1 then bool_to_number (toPrimitive h y) else b1)
                     | _ \<Rightarrow> b1)
           in loose_eq_primitive h a2 b2))"

text \<open>The relational operators. \<open>less_than h a b\<close> is the comparison \<open>a < b\<close> of the
  language with its three answers: true, false, or undefined (\<open>None\<close>) when a side is
  not-a-number. Two strings compare by their characters, everything else as numbers.\<close>

fun str_less :: "string \<Rightarrow> string \<Rightarrow> bool" where
  "str_less [] [] = False"
| "str_less [] (y # ys) = True"
| "str_less (x # xs) [] = False"
| "str_less (x # xs) (y # ys) =
     ((of_char x :: nat) < of_char y \<or> (x = y \<and> str_less xs ys))"

fun num_less :: "jsnum \<Rightarrow> jsnum \<Rightarrow> bool option" where
  "num_less NaN b = None"
| "num_less a NaN = None"
| "num_less (Fin x) (Fin y) = Some (x < y)"
| "num_less PosInf b = Some False"
| "num_less a PosInf = Some True"
| "num_less a NegInf = Some False"
| "num_less NegInf b = Some True"

fun to_number :: "host \<Rightarrow> js_value \<Rightarrow> jsnum" where
  "to_number h Undefined = NaN"
| "to_number h Null = Fin 0"
| "to_number h (Boolean b) = Fin (if b then 1 else 0)"
| "to_number h (Number n) = n"
| "to_number h (String x) = stringToNumber h x"
| "to_number h (Object a) = NaN"

definition to_primitive :: "host \<Rightarrow> js_value \<Rightarrow> js_value" where
  "to_primitive h v = (case v of Object a \<Rightarrow> toPrimitive h a | _ \<Rightarrow> v)"

definition less_than :: "host \<Rightarrow> js_value \<Rightarrow> js_value \<Rightarrow> bool option" where
  "less_than h a b =
     (case (to_primitive h a, to_primitive h b) of
        (String x, String y) \<Rightarrow> Some (str_less x y)
      | (pa, pb) \<Rightarrow> num_less (to_number h pa) (to_number h pb))"

definition js_lt :: "host \<Rightarrow> js_value \<Rightarrow> js_value \<Rightarrow> bool" where
  "js_lt h a b = (less_than h a b = Some True)"

definition js_gt :: "host \<Rightarrow> js_value \<Rightarrow> js_value \<Rightarrow> bool" where
  "js_gt h a b = (less_than h b a = Some True)"

definition js_le :: "host \<Rightarrow> js_value \<Rightarrow> js_value \<Rightarrow> bool" where
  "js_le h a b = (less_than h b a = Some False)"

definition js_ge :: "host \<Rightarrow> js_value \<Rightarrow> js_value \<Rightarrow> bool" where
  "js_ge h a b = (less_than h a b = Some False)"

text \<open>\<open>v.length\<close> of a string (the library reads it only behind a
  \<open>typeof v === "string"\<close> test), \<open>Number.isNaN\<close>, \<open>Number.isSafeInteger\<close> and the
  test \<open>v % 1 !== 0\<close> on a number.\<close>

definition is_string :: "js_value \<Rightarrow> bool" where
  "is_string v = (typeof v = ''string'')"

definition is_number :: "js_value \<Rightarrow> bool" where
  "is_number v = (typeof v = ''number'')"

definition js_length :: "js_value \<Rightarrow> js_value" where
  "js_length v = (case v of String x \<Rightarrow> Number (Fin (of_nat (length x))) | _ \<Rightarrow> Undefined)"

definition Number_isNaN :: "js_value \<Rightarrow> bool" where
  "Number_isNaN v = (v = Number NaN)"

definition Number_isSafeInteger :: "js_value \<Rightarrow> bool" where
  "Number_isSafeInteger v =
     (case v of
        Number (Fin q) \<Rightarrow> of_int \<lfloor>q\<rfloor> = q \<and> \<bar>q\<bar> \<le> 2 ^ 53 - 1
      | _ \<Rightarrow> False)"

definition has_remainder :: "js_value \<Rightarrow> bool" where
  "has_remainder v =
     (case v of
        Number (Fin q) \<Rightarrow> of_int \<lfloor>q\<rfloor> \<noteq> q
      | _ \<Rightarrow> True)"

text \<open>\<open>String.prototype.trim\<close>, on the white space a \<open>char\<close> can hold.\<close>

definition js_whitespace :: "char \<Rightarrow> bool" where
  "js_whitespace c = ((of_char c :: nat) \<in> {9, 10, 11, 12, 13, 32, 160})"

definition js_trim :: "string \<Rightarrow> string" where
  "js_trim x = rev (dropWhile js_whitespace (rev (dropWhile js_whitespace x)))"

section \<open>The objects of the library\<close>

text \<open>
  The model follows the revision of the validator that has
  \<open>hasUnvalidatedProperties\<close> and the two-argument \<open>optional\<close> (release 2.1.0);
  in the source tree it is the text of \<open>src/test/all.js\<close> from its licence header
  on. The file \<open>src/lib/validator.js\<close> holds an older revision, with other method
  names, a one-argument \<open>optional\<close> and another \<open>VoidValidation\<close>; where the two
  differ for a claim, the older one is modelled beside it under a name that starts with
  \<open>lib_\<close>.

  A \<open>Validation\<close> object and its \<open>messages\<close> array live in a store and are named by
  their addresses: \<open>checkResult\<close> and the sanitizers mutate the \<open>Validation\<close>
  that the \<open>Validator\<close> has registered, and \<open>getMessages\<close> hands out either the
  registered array itself or a copy of it. \<open>fresh\<close> is the next unused address.

  A JavaScript object used as a table (\<open>obj\<close>, \<open>validations\<close>) is the list of its
  own properties in insertion order; both tables are plain objects, so what they do not
  have themselves they inherit from \<open>Object.prototype\<close>. Property names are strings.
  The name \<open>__proto__\<close>, which engines treat in ways of their own, is outside the
  model: the theorems that range over names exclude it.
\<close>

type_synonym addr = nat

record validation =
  key :: string
  val :: js_value
  stopOnFail :: bool
  isValid :: bool
  messages :: addr

record validator =
  obj :: "(string \<times> js_value) list"
  validations :: "(string \<times> addr) list"
  objects :: "addr \<Rightarrow> validation"
  arrays :: "addr \<Rightarrow> js_value list"
  fresh :: addr

datatype error = TypeError | Error string

text \<open>What a chained expression holds after each call: the registered \<open>Validation\<close>,
  a \<open>VoidValidation\<close> with its own copy of the value, or (after \<open>getValue\<close>) a plain
  value.\<close>

datatype chain = Validation addr | VoidValidation js_value | Value js_value

text \<open>\<open>table[k] = v\<close>: an existing property keeps its place.\<close>

fun put :: "(string \<times> 'a) list \<Rightarrow> string \<Rightarrow> 'a \<Rightarrow> (string \<times> 'a) list" where
  "put [] k v = [(k, v)]"
| "put ((k', v') # kvs) k v = (if k' = k then (k, v) # kvs else (k', v') # put kvs k v)"

text \<open>\<open>table.hasOwnProperty(k)\<close>. The method is looked up in the table like any
  property: a table that has an own property named \<open>hasOwnProperty\<close> answers with
  that property's value, which is not a function (a source value of the model never is,
  and neither is a \<open>Validation\<close>), and calling it throws a \<open>TypeError\<close>.
  Otherwise the inherited method tells whether \<open>k\<close> is an own property.\<close>

definition hasOwnProperty :: "(string \<times> 'a) list \<Rightarrow> string \<Rightarrow> error + bool" where
  "hasOwnProperty table k =
     (case map_of table ''hasOwnProperty'' of
        Some f \<Rightarrow> Inl TypeError
      | None \<Rightarrow> (case map_of table k of Some x \<Rightarrow> Inr True | None \<Rightarrow> Inr False))"

text \<open>The properties of \<open>Object.prototype\<close>: those of the language and those Rhino,
  the engine of RingoJS, adds. A table answers for such a name, when it has no own
  property of that name, with the inherited function.\<close>

definition Object_prototype :: "string list" where
  "Object_prototype =
     [''constructor'', ''toString'', ''toLocaleString'', ''valueOf'', ''hasOwnProperty'',
      ''isPrototypeOf'', ''propertyIsEnumerable'', ''toSource'', ''__defineGetter__'',
      ''__defineSetter__'', ''__lookupGetter__'', ''__lookupSetter__'']"

subsection \<open>Validator\<close>

text \<open>\<open>new Validator(objectToValidate)\<close>: no validation yet, an empty store.\<close>

definition Validator :: "(string \<times> js_value) list \<Rightarrow> validator" where
  "Validator objectToValidate =
     \<lparr>obj = objectToValidate,
      validations = [],
      objects = (\<lambda>a. \<lparr>key = [], val = Undefined, stopOnFail = False, isValid = False, messages = 0\<rparr>),
      arrays = (\<lambda>a. []),
      fresh = 0\<rparr>"

text \<open>\<open>new Validation(key, value, stopOnFail)\<close>: allocates the object and its empty
  \<open>messages\<close> array.\<close>

definition new_Validation :: "string \<Rightarrow> js_value \<Rightarrow> bool \<Rightarrow> validator \<Rightarrow> validator \<times> addr" where
  "new_Validation k v stop s =
     (let a = fresh s; m = Suc (fresh s)
      in (s\<lparr>objects := (objects s)(a := \<lparr>key = k, val = v, stopOnFail = stop, isValid = True, messages = m\<rparr>),
            arrays := (arrays s)(m := []),
            fresh := Suc (Suc (fresh s))\<rparr>, a))"

text \<open>\<open>addValidation(key, stopOnFail, trim)\<close> starts with
  \<open>this.obj.hasOwnProperty(key) ? this.obj[key] : undefined\<close>, which throws, before
  anything is registered, when the source itself has a property named
  \<open>hasOwnProperty\<close>.\<close>

definition addValidation :: "string \<Rightarrow> bool \<Rightarrow> bool \<Rightarrow> validator \<Rightarrow> error + validator \<times> chain" where
  "addValidation k stop trim s =
     (case hasOwnProperty (obj s) k of
        Inl e \<Rightarrow> Inl e
      | Inr own \<Rightarrow>
          (let v = (if own then (case map_of (obj s) k of Some x \<Rightarrow> x | None \<Rightarrow> Undefined)
                    else Undefined);
               v' = (case v of String x \<Rightarrow> (if trim then String (js_trim x) else v) | _ \<Rightarrow> v);
               (s', a) = new_Validation k v' stop s
           in Inr (s'\<lparr>validations := put (validations s') k a\<rparr>, Validation a)))"

definition validate :: "string \<Rightarrow> js_value \<Rightarrow> validator \<Rightarrow> error + validator \<times> chain" where
  "validate k trim s = addValidation k True (strict_eq trim (Boolean True)) s"

definition validateAll :: "string \<Rightarrow> js_value \<Rightarrow> validator \<Rightarrow> error + validator \<times> chain" where
  "validateAll k trim s = addValidation k False (strict_eq trim (Boolean True)) s"

text \<open>\<open>Array.prototype.indexOf\<close>, \<open>-1\<close> when the element is absent.\<close>

fun indexOf_from :: "nat \<Rightarrow> 'a list \<Rightarrow> 'a \<Rightarrow> int" where
  "indexOf_from i [] x = - 1"
| "indexOf_from i (y # ys) x = (if y = x then int i else indexOf_from (Suc i) ys x)"

definition indexOf :: "'a list \<Rightarrow> 'a \<Rightarrow> int" where
  "indexOf xs x = indexOf_from 0 xs x"

definition hasUnvalidatedProperties :: "validator \<Rightarrow> bool" where
  "hasUnvalidatedProperties s =
     (let validationKeys = map fst (validations s);
          objectKeys = map fst (obj s)
      in if length validationKeys < length objectKeys then True
         else list_ex (\<lambda>k. indexOf validationKeys k = - 1) objectKeys)"

text \<open>\<open>hasFailures(name)\<close>; \<open>None\<close> is the call without a name (or with
  \<open>undefined\<close>). With a name it calls \<open>this.validations.hasOwnProperty(name)\<close>,
  which throws once a validation is registered under the name \<open>hasOwnProperty\<close>.\<close>

definition hasFailures :: "string option \<Rightarrow> validator \<Rightarrow> error + bool" where
  "hasFailures name s =
     (case name of
        Some n \<Rightarrow>
          (case hasOwnProperty (validations s) n of
             Inl e \<Rightarrow> Inl e
           | Inr own \<Rightarrow>
               (if own then
                  (case map_of (validations s) n of
                     Some a \<Rightarrow> Inr (\<not> isValid (objects s a))
                   | None \<Rightarrow> Inr True)
                else Inr True))
      | None \<Rightarrow> Inr (\<not> list_all (\<lambda>(k, a). isValid (objects s a)) (validations s)))"

text \<open>\<open>getMessages(key)\<close> answers an array, \<open>getMessages()\<close> an object of arrays.
  With a key that has failures the answer is \<open>this.validations[key].messages\<close>: the
  \<open>messages\<close> array of the registered \<open>Validation\<close> itself; for a key that is not
  registered, \<open>undefined\<close> (\<open>NoArray\<close>) when the table inherits a function of that
  name, which has no \<open>messages\<close>, and a \<open>TypeError\<close> otherwise, when the table
  answers \<open>undefined\<close>. With a key that has no failures the answer is a new empty
  array. Without a key every registered array is copied (\<open>slice\<close>) into a new one.\<close>

datatype messages_result = Array addr | NoArray | Arrays "(string \<times> addr) list"

fun slice_all :: "(string \<times> addr) list \<Rightarrow> validator \<Rightarrow> (string \<times> addr) list \<Rightarrow> validator \<times> (string \<times> addr) list" where
  "slice_all [] s acc = (s, acc)"
| "slice_all ((k, a) # rest) s acc =
     (let n = fresh s;
          s' = s\<lparr>arrays := (arrays s)(n := arrays s (messages (objects s a))), fresh := Suc n\<rparr>
      in slice_all rest s' (put acc k n))"

definition getMessages :: "string option \<Rightarrow> validator \<Rightarrow> error + validator \<times> messages_result" where
  "getMessages k s =
     (case k of
        Some n \<Rightarrow>
          (case hasFailures (Some n) s of
             Inl e \<Rightarrow> Inl e
           | Inr failed \<Rightarrow>
               (if failed then
                  (case map_of (validations s) n of
                     Some a \<Rightarrow> Inr (s, Array (messages (objects s a)))
                   | None \<Rightarrow> (if n \<in> set Object_prototype then Inr (s, NoArray) else Inl TypeError))
                else Inr (s\<lparr>arrays := (arrays s)(fresh s := []), fresh := Suc (fresh s)\<rparr>,
                          Array (fresh s))))
      | None \<Rightarrow> (case slice_all (validations s) s [] of (s', ms) \<Rightarrow> Inr (s', Arrays ms)))"

text \<open>\<open>Validator.prototype.getValue(key)\<close>: \<open>undefined\<close> for the key
  \<open>undefined\<close>; otherwise \<open>this.validations[key].getValue()\<close>, a \<open>TypeError\<close>
  when nothing is registered under the key (the table then answers \<open>undefined\<close>, or
  an inherited function, which has no \<open>getValue\<close>).\<close>

definition Validator_getValue :: "string option \<Rightarrow> validator \<Rightarrow> error + js_value" where
  "Validator_getValue k s =
     (case k of
        None \<Rightarrow> Inr Undefined
      | Some n \<Rightarrow>
          (case map_of (validations s) n of
             None \<Rightarrow> Inl TypeError
           | Some a \<Rightarrow> Inr (val (objects s a))))"

definition getValues :: "validator \<Rightarrow> (string \<times> js_value) list" where
  "getValues s = map (\<lambda>(k, a). (k, val (objects s a))) (validations s)"

subsection \<open>Validation: the predicates\<close>

text \<open>
  Every validating method of \<open>Validation.prototype\<close> has the shape
  \<open>return checkResult(this, condition, message)\<close>. A \<open>predicate\<close> is such a method
  with its arguments but the message, and \<open>holds\<close> its condition on the current value
  \<open>v\<close>. A function argument is \<open>Some f\<close>, an argument that is not callable \<open>None\<close>;
  the regular expression of \<open>matches\<close> is its \<open>test\<close> method.
\<close>

datatype predicate =
    hasLength js_value
  | hasLengthBetween js_value js_value
  | hasMaxLength js_value
  | hasMinLength js_value
  | hasValue
  | isAlpha
  | isAlphanumeric
  | isDateFormat
  | isDefined
  | isEmail
  | isEqual js_value
  | isFalse
  | isFileName
  | isFloat
  | isGreaterThan js_value
  | isHexColor
  | isInt
  | isLessThan js_value
  | isNaN
  | isNotNaN
  | isNull
  | isNotNull
  | isNumeric
  | isNumber
  | isStrictEqual js_value
  | isStrictNotNull
  | isStrictNull
  | isString
  | isTrue
  | isUrl
  | matches "(js_value \<Rightarrow> bool) option"
  | passes "(js_value \<Rightarrow> js_value) option"

text \<open>\<open>typeof v === "string" && test(v)\<close>.\<close>

definition on_string :: "(string \<Rightarrow> bool) \<Rightarrow> js_value \<Rightarrow> bool" where
  "on_string test v = (case v of String x \<Rightarrow> test x | _ \<Rightarrow> False)"

definition not_a_function :: error where
  "not_a_function = Error ''Validator function argument is not a function!''"

fun holds :: "host \<Rightarrow> predicate \<Rightarrow> js_value \<Rightarrow> error + bool" where
  "holds h (hasLength len) v = Inr (is_string v \<and> strict_eq (js_length v) len)"
| "holds h (hasLengthBetween minLength maxLength) v =
     Inr (is_string v \<and> js_ge h (js_length v) minLength \<and> js_le h (js_length v) maxLength)"
| "holds h (hasMaxLength maxLength) v = Inr (is_string v \<and> js_le h (js_length v) maxLength)"
| "holds h (hasMinLength minLength) v = Inr (is_string v \<and> js_ge h (js_length v) minLength)"
| "holds h hasValue v =
     Inr (\<not> loose_eq h v Null \<and> (\<not> is_string v \<or> js_gt h (js_length v) (Number (Fin 0))))"
| "holds h isAlpha v = Inr (on_string (strings_isAlpha h) v)"
| "holds h isAlphanumeric v = Inr (on_string (strings_isAlphanumeric h) v)"
| "holds h isDateFormat v = Inr (on_string (strings_isDateFormat h) v)"
| "holds h isDefined v = Inr (\<not> strict_eq v Undefined)"
| "holds h isEmail v = Inr (on_string (strings_isEmail h) v)"
| "holds h (isEqual x) v = Inr (loose_eq h v x)"
| "holds h isFalse v = Inr (strict_eq v (Boolean False))"
| "holds h isFileName v = Inr (on_string (strings_isFileName h) v)"
| "holds h isFloat v = Inr (on_string (strings_isFloat h) v \<or> (is_number v \<and> has_remainder v))"
| "holds h (isGreaterThan right) v = Inr (js_gt h v right)"
| "holds h isHexColor v = Inr (on_string (strings_isHexColor h) v)"
| "holds h isInt v = Inr (on_string (strings_isInt h) v \<or> Number_isSafeInteger v)"
| "holds h (isLessThan right) v = Inr (js_lt h v right)"
| "holds h isNaN v = Inr (Number_isNaN v)"
| "holds h isNotNaN v = Inr (\<not> Number_isNaN v)"
| "holds h isNull v = Inr (loose_eq h v Null)"
| "holds h isNotNull v = Inr (\<not> loose_eq h v Null)"
| "holds h isNumeric v = Inr (is_number v \<or> on_string (strings_isNumeric h) v)"
| "holds h isNumber v =
     Inr (is_number v \<or> on_string (\<lambda>x. strings_isFloat h x \<or> strings_isInt h x) v)"
| "holds h (isStrictEqual x) v = Inr (strict_eq v x)"
| "holds h isStrictNotNull v = Inr (\<not> strict_eq v Null)"
| "holds h isStrictNull v = Inr (strict_eq v Null)"
| "holds h isString v = Inr (is_string v)"
| "holds h isTrue v = Inr (strict_eq v (Boolean True))"
| "holds h isUrl v = Inr (on_string (strings_isUrl h) v)"
| "holds h (matches regex) v = (case regex of None \<Rightarrow> Inl TypeError | Some test \<Rightarrow> Inr (test v))"
| "holds h (passes func) v =
     (case func of None \<Rightarrow> Inl not_a_function | Some f \<Rightarrow> Inr (strict_eq (f v) (Boolean True)))"

text \<open>\<open>checkResult(validationObj, passes, message)\<close>: a failure is recorded in the
  object, and a stop-on-fail object hands the chain over to a new \<open>VoidValidation\<close>
  that carries its value.\<close>

definition checkResult :: "addr \<Rightarrow> bool \<Rightarrow> js_value \<Rightarrow> validator \<Rightarrow> validator \<times> chain" where
  "checkResult validationObj ok message s =
     (if \<not> ok then
        (let v = objects s validationObj;
             s' = s\<lparr>objects := (objects s)(validationObj := v\<lparr>isValid := False\<rparr>),
                    arrays := (arrays s)(messages v := arrays s (messages v) @ [message])\<rparr>
         in if stopOnFail v then (s', VoidValidation (val v)) else (s', Validation validationObj))
      else (s, Validation validationObj))"

subsection \<open>Validation: the sanitizers\<close>

text \<open>Every sanitizer has the shape \<open>this.value = f(this.value); return this\<close>;
  \<open>sanitize\<close> is the new value, or the error \<open>toValue\<close> throws.\<close>

datatype sanitizer =
    toBoolean js_value
  | toDate js_value js_value js_value js_value
  | toFloat
  | toInt js_value
  | toValue "(js_value \<Rightarrow> js_value) option"

fun sanitize :: "host \<Rightarrow> sanitizer \<Rightarrow> js_value \<Rightarrow> error + js_value" where
  "sanitize h (toBoolean strictTrue) v =
     Inr (if truthy strictTrue
          then Boolean (strict_eq v (String ''1'') \<or> strict_eq v (String ''true''))
          else Boolean (\<not> strict_eq v Null \<and> \<not> strict_eq v Undefined \<and> \<not> strict_eq v (String ''0'')
                 \<and> \<not> strict_eq v (String ''false'') \<and> \<not> strict_eq v (String [])))"
| "sanitize h (toDate format locale timezone lenient) v =
     Inr (dates_parse h v format locale timezone lenient)"
| "sanitize h toFloat v =
     Inr (parseFloat h (if is_string v \<and> \<not> on_string (strings_isFloat h) v then Number NaN else v))"
| "sanitize h (toInt radix) v =
     Inr (parseInt h (if is_string v \<and> \<not> on_string (strings_isInt h) v then Number NaN else v)
            (js_or radix (Number (Fin 10))))"
| "sanitize h (toValue converter) v =
     (case converter of None \<Rightarrow> Inl not_a_function | Some f \<Rightarrow> Inr (f v))"

subsection \<open>Validation and VoidValidation: the methods\<close>

text \<open>A call of a method of \<open>Validation.prototype\<close>: \<open>Check p message\<close> is the
  predicate \<open>p\<close> called with its arguments and the message, \<open>Convert c\<close> the sanitizer
  \<open>c\<close>. \<open>fn_name\<close> is the property name of the method, which the loop that fills
  \<open>VoidValidation.prototype\<close> reads.\<close>

datatype call =
    Check predicate js_value
  | optional js_value js_value
  | Convert sanitizer
  | getValue

fun predicate_name :: "predicate \<Rightarrow> string" where
  "predicate_name (hasLength len) = ''hasLength''"
| "predicate_name (hasLengthBetween a b) = ''hasLengthBetween''"
| "predicate_name (hasMaxLength a) = ''hasMaxLength''"
| "predicate_name (hasMinLength a) = ''hasMinLength''"
| "predicate_name hasValue = ''hasValue''"
| "predicate_name isAlpha = ''isAlpha''"
| "predicate_name isAlphanumeric = ''isAlphanumeric''"
| "predicate_name isDateFormat = ''isDateFormat''"
| "predicate_name isDefined = ''isDefined''"
| "predicate_name isEmail = ''isEmail''"
| "predicate_name (isEqual x) = ''isEqual''"
| "predicate_name isFalse = ''isFalse''"
| "predicate_name isFileName = ''isFileName''"
| "predicate_name isFloat = ''isFloat''"
| "predicate_name (isGreaterThan x) = ''isGreaterThan''"
| "predicate_name isHexColor = ''isHexColor''"
| "predicate_name isInt = ''isInt''"
| "predicate_name (isLessThan x) = ''isLessThan''"
| "predicate_name isNaN = ''isNaN''"
| "predicate_name isNotNaN = ''isNotNaN''"
| "predicate_name isNull = ''isNull''"
| "predicate_name isNotNull = ''isNotNull''"
| "predicate_name isNumeric = ''isNumeric''"
| "predicate_name isNumber = ''isNumber''"
| "predicate_name (isStrictEqual x) = ''isStrictEqual''"
| "predicate_name isStrictNotNull = ''isStrictNotNull''"
| "predicate_name isStrictNull = ''isStrictNull''"
| "predicate_name isString = ''isString''"
| "predicate_name isTrue = ''isTrue''"
| "predicate_name isUrl = ''isUrl''"
| "predicate_name (matches r) = ''matches''"
| "predicate_name (passes f) = ''passes''"

fun sanitizer_name :: "sanitizer \<Rightarrow> string" where
  "sanitizer_name (toBoolean a) = ''toBoolean''"
| "sanitizer_name (toDate a b c d) = ''toDate''"
| "sanitizer_name toFloat = ''toFloat''"
| "sanitizer_name (toInt a) = ''toInt''"
| "sanitizer_name (toValue f) = ''toValue''"

fun fn_name :: "call \<Rightarrow> string" where
  "fn_name (Check p message) = predicate_name p"
| "fn_name (optional defaultValue strict) = ''optional''"
| "fn_name (Convert c) = sanitizer_name c"
| "fn_name getValue = ''getValue''"

definition set_value :: "addr \<Rightarrow> js_value \<Rightarrow> validator \<Rightarrow> validator" where
  "set_value this v s = s\<lparr>objects := (objects s)(this := (objects s this)\<lparr>val := v\<rparr>)\<rparr>"

fun Validation_call :: "host \<Rightarrow> call \<Rightarrow> addr \<Rightarrow> validator \<Rightarrow> error + validator \<times> chain" where
  "Validation_call h (Check p message) this s =
     (case holds h p (val (objects s this)) of
        Inl e \<Rightarrow> Inl e
      | Inr ok \<Rightarrow> Inr (checkResult this ok message s))"
| "Validation_call h (optional defaultValue strict) this s =
     (if (strict_eq strict (Boolean True) \<and> strict_eq (val (objects s this)) Undefined)
         \<or> (\<not> strict_eq strict (Boolean True) \<and> \<not> truthy (val (objects s this)))
      then Inr (set_value this defaultValue s, VoidValidation defaultValue)
      else Inr (s, Validation this))"
| "Validation_call h (Convert c) this s =
     (case sanitize h c (val (objects s this)) of
        Inl e \<Rightarrow> Inl e
      | Inr v \<Rightarrow> Inr (set_value this v s, Validation this))"
| "Validation_call h getValue this s = Inr (s, Value (val (objects s this)))"

text \<open>\<open>VoidValidation.prototype[fn] = (fn === "getValue" ? Validation.prototype.getValue
  : voidCheck)\<close>, where \<open>voidCheck\<close> returns \<open>this\<close>.\<close>

definition VoidValidation_call :: "call \<Rightarrow> js_value \<Rightarrow> chain" where
  "VoidValidation_call c v = (if fn_name c = ''getValue'' then Value v else VoidValidation v)"

text \<open>The older revision kept in \<open>src/lib/validator.js\<close> fills the prototype
  differently: \<open>if (!strings.startsWith(fn, "to") && !(fn == "getValue"))\<close> the method
  returns \<open>this\<close>, otherwise it is the method of \<open>Validation.prototype\<close>, which then
  runs on the \<open>VoidValidation\<close> and its own value. \<open>lib_method_names\<close> are the
  methods of that revision's \<open>Validation.prototype\<close>, in the order of the file; its
  sanitizers and \<open>getValue\<close> have the names and bodies modelled above.\<close>

definition startsWith :: "string \<Rightarrow> string \<Rightarrow> bool" where
  "startsWith x p = (take (length p) x = p)"

definition lib_method_names :: "string list" where
  "lib_method_names =
     [''optional'', ''isAlpha'', ''isAlphanumeric'', ''isDateFormat'', ''isUrl'', ''isEmail'',
      ''isFileName'', ''isHexColor'', ''isNumeric'', ''isInt'', ''isFloat'', ''isNumber'',
      ''minLength'', ''maxLength'', ''lengthBetween'', ''hasLength'', ''equal'', ''strictEqual'',
      ''isTrue'', ''isFalse'', ''isDefined'', ''hasValue'', ''notNull'', ''strictNotNull'',
      ''isNull'', ''strictIsNull'', ''greaterThan'', ''lessThan'', ''isNaN'', ''isNotNaN'',
      ''matches'', ''passes'', ''toDate'', ''toFloat'', ''toInt'', ''toBoolean'', ''toValue'',
      ''getValue'']"

definition lib_void_inert :: "string \<Rightarrow> bool" where
  "lib_void_inert fn = (\<not> startsWith fn ''to'' \<and> \<not> fn = ''getValue'')"

definition lib_VoidValidation_convert :: "host \<Rightarrow> sanitizer \<Rightarrow> js_value \<Rightarrow> error + chain" where
  "lib_VoidValidation_convert h c v =
     (if lib_void_inert (sanitizer_name c)
      then Inr (VoidValidation v)
      else (case sanitize h c v of Inl e \<Rightarrow> Inl e | Inr v' \<Rightarrow> Inr (VoidValidation v')))"

text \<open>\<open>optional(defaultValue)\<close> of the older revision: only \<open>null\<close> and
  \<open>undefined\<close> are replaced, a default keeps the chain active, and without a default
  the chain becomes a \<open>VoidValidation\<close> of the empty string.\<close>

definition lib_optional :: "host \<Rightarrow> js_value \<Rightarrow> addr \<Rightarrow> validator \<Rightarrow> validator \<times> chain" where
  "lib_optional h defaultValue this s =
     (if loose_eq h (val (objects s this)) Null then
        (if \<not> strict_eq defaultValue Undefined
         then (set_value this defaultValue s, Validation this)
         else (s, VoidValidation (String [])))
      else (s, Validation this))"

text \<open>One call in a chained expression. A plain value has none of the methods.\<close>

fun invoke :: "host \<Rightarrow> call \<Rightarrow> chain \<Rightarrow> validator \<Rightarrow> error + validator \<times> chain" where
  "invoke h c (Validation this) s = Validation_call h c this s"
| "invoke h c (VoidValidation v) s = Inr (s, VoidValidation_call c v)"
| "invoke h c (Value v) s = Inl TypeError"

text \<open>The calls of one expression, left to right; an exception leaves the expression
  with the state reached so far.\<close>

fun calls :: "host \<Rightarrow> call list \<Rightarrow> chain \<Rightarrow> validator \<Rightarrow> validator \<times> (error + chain)" where
  "calls h [] c s = (s, Inr c)"
| "calls h (x # xs) c s =
     (case invoke h x c s of
        Inl e \<Rightarrow> (s, Inl e)
      | Inr (s', c') \<Rightarrow> calls h xs c' s')"

text \<open>A session is a sequence of statements \<open>validator.validate(key, trim).m1(..)...\<close>
  and \<open>validator.validateAll(key, trim).m1(..)...\<close>; \<open>run\<close> keeps going after a
  statement that threw, as a caller that catches the exception would.\<close>

datatype stmt =
    Validate string js_value "call list"
  | ValidateAll string js_value "call list"

fun exec :: "host \<Rightarrow> stmt \<Rightarrow> validator \<Rightarrow> validator \<times> (error + chain)" where
  "exec h (Validate k trim cs) s =
     (case validate k trim s of Inl e \<Rightarrow> (s, Inl e) | Inr (s', c) \<Rightarrow> calls h cs c s')"
| "exec h (ValidateAll k trim cs) s =
     (case validateAll k trim s of Inl e \<Rightarrow> (s, Inl e) | Inr (s', c) \<Rightarrow> calls h cs c s')"

fun run :: "host \<Rightarrow> stmt list \<Rightarrow> validator \<Rightarrow> validator" where
  "run h [] s = s"
| "run h (st # sts) s = run h sts (fst (exec h st s))"

fun stmt_key :: "stmt \<Rightarrow> string" where
  "stmt_key (Validate k trim cs) = k"
| "stmt_key (ValidateAll k trim cs) = k"

subsection \<open>Observations\<close>

text \<open>\<open>current c s\<close> is what \<open>c.getValue()\<close> answers; \<open>first_value k trim s\<close> the
  value a chain for \<open>k\<close> starts with; \<open>recorded k s\<close> the validity flag and the
  messages of the \<open>Validation\<close> registered under \<open>k\<close>.\<close>

fun current :: "chain \<Rightarrow> validator \<Rightarrow> js_value" where
  "current (Validation a) s = val (objects s a)"
| "current (VoidValidation v) s = v"
| "current (Value v) s = v"

definition first_value :: "string \<Rightarrow> js_value \<Rightarrow> validator \<Rightarrow> js_value" where
  "first_value k trim s =
     (case validate k trim s of Inl e \<Rightarrow> Undefined | Inr (s', c) \<Rightarrow> current c s')"

definition recorded :: "string \<Rightarrow> validator \<Rightarrow> (bool \<times> js_value list) option" where
  "recorded k s =
     (case map_of (validations s) k of
        None \<Rightarrow> None
      | Some a \<Rightarrow> Some (isValid (objects s a), arrays s (messages (objects s a))))"

text \<open>The shape of the store of a session: the registered names are distinct, and every
  registered object and its array were allocated.\<close>

definition allocated :: "validator \<Rightarrow> bool" where
  "allocated s =
     (distinct (map fst (validations s))
      \<and> list_all (\<lambda>(k, a). a < fresh s \<and> messages (objects s a) < fresh s) (validations s))"

subsection \<open>A host to evaluate with\<close>

text \<open>A small host for evaluating the model on concrete inputs: integers are unsigned
  decimal numerals without a leading zero, and \<open>parseInt\<close> reads them in base ten. The
  classifiers no example needs answer \<open>False\<close>.\<close>

definition is_digit :: "char \<Rightarrow> bool" where
  "is_digit c = (c \<in> set ''0123456789'')"

definition is_letter :: "char \<Rightarrow> bool" where
  "is_letter c = (c \<in> set ''abcdefghijklmnopqrstuvwxyzABCDEFGHIJKLMNOPQRSTUVWXYZ'')"

definition digit_value :: "char \<Rightarrow> nat" where
  "digit_value c = of_char c - 48"

definition decimal :: "string \<Rightarrow> nat" where
  "decimal x = foldl (\<lambda>n c. 10 * n + digit_value c) 0 x"

definition is_numeral :: "string \<Rightarrow> bool" where
  "is_numeral x = (x \<noteq> [] \<and> list_all is_digit x)"

definition sample_parse :: "js_value \<Rightarrow> js_value" where
  "sample_parse v =
     (case v of
        String x \<Rightarrow> (if is_numeral x then Number (Fin (of_nat (decimal x))) else Number NaN)
      | Number n \<Rightarrow> Number n
      | _ \<Rightarrow> Number NaN)"

definition sample_host :: host where
  "sample_host =
     \<lparr>strings_isAlpha = (\<lambda>x. x \<noteq> [] \<and> list_all is_letter x),
      strings_isAlphanumeric = (\<lambda>x. x \<noteq> [] \<and> list_all (\<lambda>c. is_letter c \<or> is_digit c) x),
      strings_isDateFormat = (\<lambda>x. False),
      strings_isEmail = (\<lambda>x. False),
      strings_isFileName = (\<lambda>x. False),
      strings_isFloat = (\<lambda>x. False),
      strings_isHexColor = (\<lambda>x. False),
      strings_isInt = (\<lambda>x. is_numeral x \<and> (x = ''0'' \<or> take 1 x \<noteq> ''0'')),
      strings_isNumeric = is_numeral,
      strings_isUrl = (\<lambda>x. False),
      dates_parse = (\<lambda>v format locale timezone lenient. Number NaN),
      parseInt = (\<lambda>v radix. sample_parse v),
      parseFloat = sample_parse,
      stringToNumber = (\<lambda>x. if is_numeral x then Fin (of_nat (decimal x)) else NaN),
      toPrimitive = (\<lambda>a. String ''[object Object]'')\<rparr>"

text \<open>\<open>follows a c s\<close>: the chain \<open>c\<close> of an expression that started at the
  \<open>Validation\<close> \<open>a\<close> is still that object, or carries that object's value.\<close>

definition follows :: "addr \<Rightarrow> chain \<Rightarrow> validator \<Rightarrow> bool" where
  "follows a c s =
     (case c of
        Validation b \<Rightarrow> b = a
      | VoidValidation v \<Rightarrow> v = val (objects s a)
      | Value v \<Rightarrow> v = val (objects s a))"

subsection \<open>Two expressions of the documentation and the tests\<close>

text \<open>\<open>.isInt(m1).toInt().isGreaterThan(17, "too young")\<close> (the README's age check;
  the older revision calls the last method \<open>greaterThan\<close>), and
  \<open>validateAll("foo").hasLength(4, "error msg").hasLength(5, "error msg 2")\<close>.\<close>

definition age_calls :: "js_value \<Rightarrow> call list" where
  "age_calls m1 =
     [Check isInt m1, Convert (toInt Undefined),
      Check (isGreaterThan (Number (Fin 17))) (String ''too young'')]"

definition two_failures :: stmt where
  "two_failures =
     ValidateAll ''foo'' Undefined
       [Check (hasLength (Number (Fin 4))) (String ''error msg''),
        Check (hasLength (Number (Fin 5))) (String ''error msg 2'')]"

section \<open>Basic facts\<close>

lemma map_of_put: "map_of (put kvs k a) k' = (if k' = k then Some a else map_of kvs k')"
  by (induction kvs k a rule: put.induct) auto

lemma keys_put: "fst ` set (put kvs k a) = insert k (fst ` set kvs)"
  by (induction kvs k a rule: put.induct) auto

lemma put_new_key: "k \<notin> fst ` set acc \<Longrightarrow> put acc k n = acc @ [(k, n)]"
  by (induction acc k n rule: put.induct) auto

lemma set_put: "set (put kvs k a) \<subseteq> insert (k, a) (set kvs)"
  by (induction kvs k a rule: put.induct) auto

lemma distinct_put: "distinct (map fst kvs) \<Longrightarrow> distinct (map fst (put kvs k a))"
proof (induction kvs k a rule: put.induct)
  case (1 k v)
  then show ?case by simp
next
  case (2 k' v' kvs k v)
  then show ?case by (auto simp add: keys_put)
qed

text \<open>A table without an own property named \<open>hasOwnProperty\<close> answers
  \<open>hasOwnProperty\<close> as the inherited method does.\<close>

lemma hasOwnProperty_plain:
  "map_of table ''hasOwnProperty'' = None \<Longrightarrow> hasOwnProperty table k = Inr (map_of table k \<noteq> None)"
  by (simp add: hasOwnProperty_def split: option.splits)

lemma hasOwnProperty_shadowed:
  "map_of table ''hasOwnProperty'' \<noteq> None \<Longrightarrow> hasOwnProperty table k = Inl TypeError"
  by (auto simp add: hasOwnProperty_def)

lemma addValidation_eq:
  "addValidation k stop trim s =
     (if map_of (obj s) ''hasOwnProperty'' \<noteq> None then Inl TypeError
      else Inr
        (s\<lparr>objects := (objects s)(fresh s :=
             \<lparr>key = k,
              val = (case (case map_of (obj s) k of Some x \<Rightarrow> x | None \<Rightarrow> Undefined) of
                       String x \<Rightarrow> (if trim then String (js_trim x) else String x)
                     | y \<Rightarrow> y),
              stopOnFail = stop, isValid = True, messages = Suc (fresh s)\<rparr>),
           arrays := (arrays s)(Suc (fresh s) := []),
           fresh := Suc (Suc (fresh s)),
           validations := put (validations s) k (fresh s)\<rparr>,
         Validation (fresh s)))"
  by (auto simp add: addValidation_def hasOwnProperty_def new_Validation_def Let_def
      split: js_value.splits option.splits)

lemma first_value_eq:
  "map_of (obj s) ''hasOwnProperty'' = None \<Longrightarrow>
   first_value k trim s =
     (case (case map_of (obj s) k of Some x \<Rightarrow> x | None \<Rightarrow> Undefined) of
        String x \<Rightarrow> (if strict_eq trim (Boolean True) then String (js_trim x) else String x)
      | y \<Rightarrow> y)"
  by (simp add: first_value_def validate_def addValidation_eq)

lemma fn_name_getValue: "fn_name c = ''getValue'' \<longleftrightarrow> c = getValue"
proof (cases c)
  case (Check p m)
  then show ?thesis by (cases p) simp_all
next
  case (Convert x)
  then show ?thesis by (cases x) simp_all
qed simp_all

lemma VoidValidation_call_eq:
  "VoidValidation_call c v = (if c = getValue then Value v else VoidValidation v)"
  by (simp add: VoidValidation_call_def fn_name_getValue)

subsection \<open>What a call, an expression and a session leave alone\<close>

lemma checkResult_frame:
  "checkResult a ok m s = (s', c) \<Longrightarrow>
     validations s' = validations s \<and> obj s' = obj s \<and> fresh s' = fresh s
     \<and> (\<forall>b. messages (objects s' b) = messages (objects s b))"
  by (auto simp add: checkResult_def Let_def split: if_splits)

lemma invoke_frame:
  "invoke h c ch s = Inr (s', ch') \<Longrightarrow>
     validations s' = validations s \<and> obj s' = obj s \<and> fresh s' = fresh s
     \<and> (\<forall>b. messages (objects s' b) = messages (objects s b))"
proof (cases ch)
  case (Validation a)
  assume i: "invoke h c ch s = Inr (s', ch')"
  show ?thesis
  proof (cases c)
    case (Check p m)
    with i Validation show ?thesis
      by (auto split: sum.splits dest: checkResult_frame)
  next
    case (optional d st)
    with i Validation show ?thesis
      by (auto simp add: set_value_def split: if_splits)
  next
    case (Convert x)
    with i Validation show ?thesis
      by (auto simp add: set_value_def split: sum.splits)
  next
    case getValue
    with i Validation show ?thesis by auto
  qed
qed auto

lemma calls_frame:
  "validations (fst (calls h cs ch s)) = validations s \<and> obj (fst (calls h cs ch s)) = obj s
   \<and> fresh (fst (calls h cs ch s)) = fresh s
   \<and> (\<forall>b. messages (objects (fst (calls h cs ch s)) b) = messages (objects s b))"
proof (induction cs arbitrary: ch s)
  case Nil
  then show ?case by simp
next
  case (Cons c cs)
  show ?case
  proof (cases "invoke h c ch s")
    case (Inl e)
    then show ?thesis by simp
  next
    case (Inr r)
    obtain s' ch' where r: "r = (s', ch')" by (cases r)
    from Inr r have "invoke h c ch s = Inr (s', ch')" by simp
    from invoke_frame[OF this] Cons.IH[of ch' s'] Inr r show ?thesis by simp
  qed
qed

text \<open>A statement on a source that has a property named \<open>hasOwnProperty\<close> throws
  at once and registers nothing.\<close>

lemma exec_shadowed:
  "map_of (obj s) ''hasOwnProperty'' \<noteq> None \<Longrightarrow> exec h st s = (s, Inl TypeError)"
  by (cases st) (simp_all add: validate_def validateAll_def addValidation_eq)

lemma exec_frame:
  assumes "map_of (obj s) ''hasOwnProperty'' = None"
  shows "validations (fst (exec h st s)) = put (validations s) (stmt_key st) (fresh s)
   \<and> obj (fst (exec h st s)) = obj s
   \<and> fresh (fst (exec h st s)) = Suc (Suc (fresh s))
   \<and> messages (objects (fst (exec h st s)) (fresh s)) = Suc (fresh s)
   \<and> (\<forall>b. b \<noteq> fresh s \<longrightarrow> messages (objects (fst (exec h st s)) b) = messages (objects s b))"
proof (cases st)
  case (Validate k trim cs)
  obtain s0 where v: "validate k trim s = Inr (s0, Validation (fresh s))"
    using assms by (simp add: validate_def addValidation_eq)
  with Validate show ?thesis
    using calls_frame[of h cs "Validation (fresh s)" s0] assms
    by (auto simp add: validate_def addValidation_eq)
next
  case (ValidateAll k trim cs)
  obtain s0 where v: "validateAll k trim s = Inr (s0, Validation (fresh s))"
    using assms by (simp add: validateAll_def addValidation_eq)
  with ValidateAll show ?thesis
    using calls_frame[of h cs "Validation (fresh s)" s0] assms
    by (auto simp add: validateAll_def addValidation_eq)
qed

lemma exec_obj: "obj (fst (exec h st s)) = obj s"
  by (cases "map_of (obj s) ''hasOwnProperty'' = None") (simp_all add: exec_frame exec_shadowed)

lemma run_obj: "obj (run h prog s) = obj s"
  by (induction prog arbitrary: s) (simp_all add: exec_obj)

lemma run_shadowed:
  "map_of (obj s) ''hasOwnProperty'' \<noteq> None \<Longrightarrow> run h prog s = s"
  by (induction prog) (simp_all add: exec_shadowed)

lemma run_keys:
  assumes "map_of (obj s) ''hasOwnProperty'' = None"
  shows "fst ` set (validations (run h prog s)) = fst ` set (validations s) \<union> stmt_key ` set prog"
  using assms
proof (induction prog arbitrary: s)
  case Nil
  then show ?case by simp
next
  case (Cons st prog)
  from Cons.prems have "map_of (obj (fst (exec h st s))) ''hasOwnProperty'' = None"
    by (simp add: exec_obj)
  from Cons.IH[OF this] Cons.prems show ?case
    by (simp add: exec_frame keys_put)
qed

lemma run_keys_subset:
  "fst ` set (validations (run h prog s)) \<subseteq> fst ` set (validations s) \<union> stmt_key ` set prog"
proof (cases "map_of (obj s) ''hasOwnProperty'' = None")
  case True
  then show ?thesis by (simp add: run_keys)
next
  case False
  then show ?thesis by (auto simp add: run_shadowed)
qed

lemma allocated_Validator: "allocated (Validator source)"
  by (simp add: allocated_def Validator_def)

lemma exec_allocated:
  assumes "allocated s"
  shows "allocated (fst (exec h st s))"
proof (cases "map_of (obj s) ''hasOwnProperty'' = None")
  case False
  with assms show ?thesis by (simp add: exec_shadowed)
next
  case True
  let ?s' = "fst (exec h st s)"
  note f = exec_frame[OF True, of h st]
  have d: "distinct (map fst (validations ?s'))"
    using assms f by (simp add: allocated_def distinct_put)
  have "a < fresh ?s' \<and> messages (objects ?s' a) < fresh ?s'" if "(k, a) \<in> set (validations ?s')" for k a
  proof (cases "a = fresh s")
    case True
    then show ?thesis using f by simp
  next
    case False
    with that f set_put[of "validations s" "stmt_key st" "fresh s"]
    have "(k, a) \<in> set (validations s)" by auto
    with assms have "a < fresh s \<and> messages (objects s a) < fresh s"
      by (auto simp add: allocated_def list_all_iff)
    with False f show ?thesis by simp
  qed
  with d show ?thesis
    by (auto simp add: allocated_def list_all_iff)
qed

lemma run_allocated: "allocated s \<Longrightarrow> allocated (run h prog s)"
  by (induction prog arbitrary: s) (simp_all add: exec_allocated)

text \<open>A name that no statement of the session validated, in a session that validated
  nothing under the name \<open>hasOwnProperty\<close>: \<open>hasFailures\<close> answers true for it,
  \<open>getValue\<close> throws, and \<open>getMessages\<close> throws unless the name is one of
  \<open>Object.prototype\<close>, for which it answers \<open>undefined\<close>.\<close>

lemma never_validated_name:
  assumes "k \<notin> stmt_key ` set prog" and "''hasOwnProperty'' \<notin> stmt_key ` set prog"
  shows "hasFailures (Some k) (run h prog (Validator source)) = Inr True
       \<and> getMessages (Some k) (run h prog (Validator source))
           = (if k \<in> set Object_prototype then Inr (run h prog (Validator source), NoArray)
              else Inl TypeError)
       \<and> Validator_getValue (Some k) (run h prog (Validator source)) = Inl TypeError"
proof -
  let ?s = "run h prog (Validator source)"
  have sub: "fst ` set (validations ?s) \<subseteq> stmt_key ` set prog"
    using run_keys_subset[of h prog "Validator source"] by (simp add: Validator_def)
  from sub assms(1) have "k \<notin> fst ` set (validations ?s)" by blast
  then have k: "map_of (validations ?s) k = None"
    by (simp add: map_of_eq_None_iff)
  from sub assms(2) have "''hasOwnProperty'' \<notin> fst ` set (validations ?s)" by blast
  then have hop: "map_of (validations ?s) ''hasOwnProperty'' = None"
    by (simp add: map_of_eq_None_iff)
  have hf: "hasFailures (Some k) ?s = Inr True"
    by (simp add: hasFailures_def hasOwnProperty_plain[OF hop] k)
  show ?thesis
    by (simp add: hf getMessages_def Validator_getValue_def k)
qed

section \<open>The inert chain\<close>

text \<open>
  In the older revision of \<open>src/lib/validator.js\<close> a sanitizer called on a
  \<open>VoidValidation\<close> runs, on the value the \<open>VoidValidation\<close> carries.
\<close>

lemma lib_VoidValidation_runs_sanitizers:
  "lib_VoidValidation_convert h c v =
     (case sanitize h c v of Inl e \<Rightarrow> Inl e | Inr v' \<Rightarrow> Inr (VoidValidation v'))"
  by (cases c) (simp_all add: lib_VoidValidation_convert_def lib_void_inert_def startsWith_def)

lemma lib_VoidValidation_active_methods:
  "filter (\<lambda>fn. \<not> lib_void_inert fn) lib_method_names
     = [''toDate'', ''toFloat'', ''toInt'', ''toBoolean'', ''toValue'', ''getValue'']"
  by (simp add: lib_method_names_def lib_void_inert_def startsWith_def)

text \<open>
  C1, as the claim states it, fails on the modelled revision: after \<open>isTrue\<close> has failed
  on the value \<open>"yes"\<close> of a \<open>validate\<close> chain, \<open>toBoolean()\<close> would compute \<open>true\<close>,
  but the chain still answers \<open>"yes"\<close>.
\<close>

theorem inert_chain_sanitizer_counterexample:
  "sanitize sample_host (toBoolean Undefined) (String ''yes'') = Inr (Boolean True)
   \<and> snd (exec sample_host
        (Validate ''flag'' Undefined [Check isTrue (String ''m''), Convert (toBoolean Undefined), getValue])
        (Validator [(''flag'', String ''yes'')]))
     = Inr (Value (String ''yes''))"
  by (simp add: validate_def addValidation_eq checkResult_def strict_eq_def
      VoidValidation_call_eq Validator_def)

text \<open>
  C1 (amended): on an inert chain (\<open>VoidValidation\<close>) every method but \<open>getValue\<close> -
  the predicates, \<open>optional\<close> and the sanitizers \<open>toInt\<close>, \<open>toFloat\<close>, \<open>toBoolean\<close>,
  \<open>toDate\<close>, \<open>toValue\<close> alike - returns the same inert chain with the same value and
  leaves the whole state (so every message list and every \<open>isValid\<close>) as it was;
  \<open>getValue\<close> answers the value the inert chain carries. Only in the older revision
  of \<open>src/lib/validator.js\<close> are the methods left active on an inert chain the five
  sanitizers and \<open>getValue\<close>, and a sanitizer replaces the value the chain carries.
\<close>

theorem inert_chain_only_getValue_active:
  "invoke h c (VoidValidation v) s = Inr (s, if c = getValue then Value v else VoidValidation v)
   \<and> filter (\<lambda>fn. \<not> lib_void_inert fn) lib_method_names
       = [''toDate'', ''toFloat'', ''toInt'', ''toBoolean'', ''toValue'', ''getValue'']
   \<and> lib_VoidValidation_convert h z v =
       (case sanitize h z v of Inl e \<Rightarrow> Inl e | Inr v' \<Rightarrow> Inr (VoidValidation v'))"
  by (simp add: VoidValidation_call_eq lib_VoidValidation_active_methods
      lib_VoidValidation_runs_sanitizers)

theorem inert_chain_only_getValue_active_witness:
  "invoke sample_host (Convert (toInt Undefined)) (VoidValidation (String ''15'')) (Validator [])
     = Inr (Validator [], VoidValidation (String ''15''))
   \<and> invoke sample_host (Check isAlpha (String ''m'')) (VoidValidation (String ''15'')) (Validator [])
     = Inr (Validator [], VoidValidation (String ''15''))
   \<and> invoke sample_host getValue (VoidValidation (String ''15'')) (Validator [])
     = Inr (Validator [], Value (String ''15''))
   \<and> lib_VoidValidation_convert sample_host (toBoolean Undefined) (String ''yes'')
     = Inr (VoidValidation (Boolean True))"
  using inert_chain_only_getValue_active
      [of sample_host "Convert (toInt Undefined)" "String ''15''" "Validator []" "toBoolean Undefined"]
    inert_chain_only_getValue_active
      [of sample_host "Check isAlpha (String ''m'')" "String ''15''" "Validator []" "toBoolean Undefined"]
    inert_chain_only_getValue_active
      [of sample_host getValue "String ''yes''" "Validator []" "toBoolean Undefined"]
    inert_chain_only_getValue_active
      [of sample_host getValue "String ''15''" "Validator []" "toBoolean Undefined"]
  by (simp add: strict_eq_def)

section \<open>Stop on the first failure, collect all failures\<close>

text \<open>
  C2: on a chain made by \<open>validate(k, trim)\<close>, two predicates that both fail on the
  field's value record exactly one message. The first call appends its message, clears
  \<open>isValid\<close> and returns an inert chain carrying the value; the second call, on that
  inert chain, changes nothing. This holds for every source that has no property named
  \<open>hasOwnProperty\<close> (on such a source \<open>validate\<close> itself throws, lemma
  \<open>exec_shadowed\<close>) and every name but \<open>__proto__\<close>. Afterwards
  \<open>hasFailures(k)\<close> is true and \<open>getMessages(k)\<close> is the one-element array of the
  first message, unless a validation is registered under the name \<open>hasOwnProperty\<close>,
  in which case both queries throw.
\<close>

theorem validate_records_first_failure_only:
  assumes src: "map_of (obj s) ''hasOwnProperty'' = None"
      and name: "k \<noteq> ''__proto__''"
      and f1: "holds h p1 (first_value k trim s) = Inr False"
      and f2: "holds h p2 (first_value k trim s) = Inr False"
  shows "\<exists>s0 c0 s1.
           validate k trim s = Inr (s0, c0)
         \<and> invoke h (Check p1 m1) c0 s0 = Inr (s1, VoidValidation (first_value k trim s))
         \<and> invoke h (Check p2 m2) (VoidValidation (first_value k trim s)) s1
             = Inr (s1, VoidValidation (first_value k trim s))
         \<and> exec h (Validate k trim [Check p1 m1, Check p2 m2]) s
             = (s1, Inr (VoidValidation (first_value k trim s)))
         \<and> recorded k s1 = Some (False, [m1])
         \<and> (if k \<noteq> ''hasOwnProperty'' \<and> map_of (validations s) ''hasOwnProperty'' = None
             then hasFailures (Some k) s1 = Inr True
                \<and> (\<exists>a. getMessages (Some k) s1 = Inr (s1, Array a) \<and> arrays s1 a = [m1])
             else hasFailures (Some k) s1 = Inl TypeError
                \<and> getMessages (Some k) s1 = Inl TypeError)"
proof -
  obtain s0 a where v: "validate k trim s = Inr (s0, Validation a)"
    and so: "stopOnFail (objects s0 a)" and ms: "messages (objects s0 a) = Suc a"
    and arr: "arrays s0 (Suc a) = []" and reg: "map_of (validations s0) k = Some a"
    and fv: "val (objects s0 a) = first_value k trim s"
    and vs: "validations s0 = put (validations s) k a"
    using src by (simp add: validate_def addValidation_eq map_of_put first_value_eq)
  define s1 where "s1 = fst (checkResult a False m1 s0)"
  have c1: "checkResult a False m1 s0 = (s1, VoidValidation (first_value k trim s))"
    by (simp add: s1_def checkResult_def Let_def so fv)
  have i1: "invoke h (Check p1 m1) (Validation a) s0 = Inr (s1, VoidValidation (first_value k trim s))"
    using f1 by (simp add: fv c1)
  have i2: "invoke h (Check p2 m2) (VoidValidation (first_value k trim s)) s1
             = Inr (s1, VoidValidation (first_value k trim s))"
    by (simp add: VoidValidation_call_eq)
  have ex: "exec h (Validate k trim [Check p1 m1, Check p2 m2]) s
             = (s1, Inr (VoidValidation (first_value k trim s)))"
    by (simp add: v i1 i2 del: invoke.simps)
  have vs1: "validations s1 = put (validations s) k a"
    by (simp add: s1_def checkResult_def Let_def vs so)
  have reg1: "map_of (validations s1) k = Some a"
    by (simp add: vs1 map_of_put)
  have inv1: "\<not> isValid (objects s1 a)" and ms1: "messages (objects s1 a) = Suc a"
    and arr1: "arrays s1 (Suc a) = [m1]"
    by (simp_all add: s1_def checkResult_def Let_def so ms arr)
  have rec: "recorded k s1 = Some (False, [m1])"
    by (simp add: recorded_def reg1 inv1 ms1 arr1)
  have q: "(if k \<noteq> ''hasOwnProperty'' \<and> map_of (validations s) ''hasOwnProperty'' = None
             then hasFailures (Some k) s1 = Inr True
                \<and> (\<exists>a. getMessages (Some k) s1 = Inr (s1, Array a) \<and> arrays s1 a = [m1])
             else hasFailures (Some k) s1 = Inl TypeError
                \<and> getMessages (Some k) s1 = Inl TypeError)"
  proof (cases "k \<noteq> ''hasOwnProperty'' \<and> map_of (validations s) ''hasOwnProperty'' = None")
    case True
    then have hop: "map_of (validations s1) ''hasOwnProperty'' = None"
      by (auto simp add: vs1 map_of_put)
    have hf: "hasFailures (Some k) s1 = Inr True"
      by (simp add: hasFailures_def hasOwnProperty_plain[OF hop] reg1 inv1)
    have "getMessages (Some k) s1 = Inr (s1, Array (Suc a))"
      by (simp add: getMessages_def hf reg1 ms1)
    with True hf arr1 show ?thesis by simp
  next
    case False
    then have hop: "map_of (validations s1) ''hasOwnProperty'' \<noteq> None"
      by (auto simp add: vs1 map_of_put)
    have hf: "hasFailures (Some k) s1 = Inl TypeError"
      by (simp add: hasFailures_def hasOwnProperty_shadowed[OF hop])
    have "getMessages (Some k) s1 = Inl TypeError"
      by (simp add: getMessages_def hf)
    with False hf show ?thesis by auto
  qed
  show ?thesis
    using v i1 i2 ex rec q by blast
qed

lemma foo_source_plain:
  "map_of (obj (Validator [(''foo'', String ''bar'')])) ''hasOwnProperty'' = None"
  by (simp add: Validator_def)

lemma foo_is_not_proto: "''foo'' \<noteq> ''__proto__''"
  by simp

lemma hasLength_4_fails_on_bar:
  "holds sample_host (hasLength (Number (Fin 4)))
     (first_value ''foo'' Undefined (Validator [(''foo'', String ''bar'')])) = Inr False"
  by (simp add: first_value_eq foo_source_plain)
     (simp add: Validator_def strict_eq_def is_string_def js_length_def)

lemma hasLength_5_fails_on_bar:
  "holds sample_host (hasLength (Number (Fin 5)))
     (first_value ''foo'' Undefined (Validator [(''foo'', String ''bar'')])) = Inr False"
  by (simp add: first_value_eq foo_source_plain)
     (simp add: Validator_def strict_eq_def is_string_def js_length_def)

theorem validate_records_first_failure_only_witness:
  "map_of (obj (Validator [(''foo'', String ''bar'')])) ''hasOwnProperty'' = None
   \<and> ''foo'' \<noteq> ''__proto__''
   \<and> holds sample_host (hasLength (Number (Fin 4)))
     (first_value ''foo'' Undefined (Validator [(''foo'', String ''bar'')])) = Inr False
   \<and> holds sample_host (hasLength (Number (Fin 5)))
     (first_value ''foo'' Undefined (Validator [(''foo'', String ''bar'')])) = Inr False
   \<and> recorded ''foo''
       (fst (exec sample_host
          (Validate ''foo'' Undefined
             [Check (hasLength (Number (Fin 4))) (String ''error msg''),
              Check (hasLength (Number (Fin 5))) (String ''error msg 2'')])
          (Validator [(''foo'', String ''bar'')])))
     = Some (False, [String ''error msg''])"
  using foo_source_plain hasLength_4_fails_on_bar hasLength_5_fails_on_bar
    validate_records_first_failure_only
      [OF foo_source_plain foo_is_not_proto hasLength_4_fails_on_bar hasLength_5_fails_on_bar,
       of "String ''error msg''" "String ''error msg 2''"]
  by (auto simp del: exec.simps holds.simps)

text \<open>
  C3: on a chain made by \<open>validateAll(k, trim)\<close>, two predicates that both fail on the
  field's value record both messages, in the order of the calls: each call appends its
  message and returns the same chain. This holds for every source that has no property
  named \<open>hasOwnProperty\<close> (on such a source \<open>validateAll\<close> itself throws) and every
  name but \<open>__proto__\<close>. Afterwards \<open>getMessages(k)\<close> is the array of the two
  messages, first call first, unless a validation is registered under the name
  \<open>hasOwnProperty\<close>, in which case \<open>hasFailures(k)\<close> and \<open>getMessages(k)\<close>
  throw.
\<close>

theorem validateAll_records_both_failures:
  assumes src: "map_of (obj s) ''hasOwnProperty'' = None"
      and name: "k \<noteq> ''__proto__''"
      and f1: "holds h p1 (first_value k trim s) = Inr False"
      and f2: "holds h p2 (first_value k trim s) = Inr False"
  shows "\<exists>s0 c0 s1 s2.
           validateAll k trim s = Inr (s0, c0)
         \<and> invoke h (Check p1 m1) c0 s0 = Inr (s1, c0)
         \<and> recorded k s1 = Some (False, [m1])
         \<and> invoke h (Check p2 m2) c0 s1 = Inr (s2, c0)
         \<and> exec h (ValidateAll k trim [Check p1 m1, Check p2 m2]) s = (s2, Inr c0)
         \<and> recorded k s2 = Some (False, [m1, m2])
         \<and> (if k \<noteq> ''hasOwnProperty'' \<and> map_of (validations s) ''hasOwnProperty'' = None
             then hasFailures (Some k) s2 = Inr True
                \<and> (\<exists>a. getMessages (Some k) s2 = Inr (s2, Array a) \<and> arrays s2 a = [m1, m2])
             else hasFailures (Some k) s2 = Inl TypeError
                \<and> getMessages (Some k) s2 = Inl TypeError)"
proof -
  obtain s0 a where v: "validateAll k trim s = Inr (s0, Validation a)"
    and so: "\<not> stopOnFail (objects s0 a)" and ms: "messages (objects s0 a) = Suc a"
    and arr: "arrays s0 (Suc a) = []" and reg: "map_of (validations s0) k = Some a"
    and fv: "val (objects s0 a) = first_value k trim s"
    and vs: "validations s0 = put (validations s) k a"
    using src by (simp add: validateAll_def addValidation_eq map_of_put first_value_eq)
  define s1 where "s1 = fst (checkResult a False m1 s0)"
  define s2 where "s2 = fst (checkResult a False m2 s1)"
  have c1: "checkResult a False m1 s0 = (s1, Validation a)"
    by (simp add: s1_def checkResult_def Let_def so)
  have so1: "\<not> stopOnFail (objects s1 a)" and fv1: "val (objects s1 a) = first_value k trim s"
    and vs1: "validations s1 = put (validations s) k a"
    and inv1: "\<not> isValid (objects s1 a)" and ms1: "messages (objects s1 a) = Suc a"
    and arr1: "arrays s1 (Suc a) = [m1]"
    by (simp_all add: s1_def checkResult_def Let_def so fv vs ms arr)
  have c2: "checkResult a False m2 s1 = (s2, Validation a)"
    by (simp add: s2_def checkResult_def Let_def so1)
  have vs2: "validations s2 = put (validations s) k a"
    and inv2: "\<not> isValid (objects s2 a)" and ms2: "messages (objects s2 a) = Suc a"
    and arr2: "arrays s2 (Suc a) = [m1, m2]"
    by (simp_all add: s2_def checkResult_def Let_def so1 vs1 ms1 arr1)
  have reg1: "map_of (validations s1) k = Some a" and reg2: "map_of (validations s2) k = Some a"
    by (simp_all add: vs1 vs2 map_of_put)
  have i1: "invoke h (Check p1 m1) (Validation a) s0 = Inr (s1, Validation a)"
    using f1 by (simp add: fv c1)
  have i2: "invoke h (Check p2 m2) (Validation a) s1 = Inr (s2, Validation a)"
    using f2 by (simp add: fv1 c2)
  have ex: "exec h (ValidateAll k trim [Check p1 m1, Check p2 m2]) s = (s2, Inr (Validation a))"
    by (simp add: v i1 i2 del: invoke.simps)
  have rec1: "recorded k s1 = Some (False, [m1])"
    by (simp add: recorded_def reg1 inv1 ms1 arr1)
  have rec2: "recorded k s2 = Some (False, [m1, m2])"
    by (simp add: recorded_def reg2 inv2 ms2 arr2)
  have q: "(if k \<noteq> ''hasOwnProperty'' \<and> map_of (validations s) ''hasOwnProperty'' = None
             then hasFailures (Some k) s2 = Inr True
                \<and> (\<exists>a. getMessages (Some k) s2 = Inr (s2, Array a) \<and> arrays s2 a = [m1, m2])
             else hasFailures (Some k) s2 = Inl TypeError
                \<and> getMessages (Some k) s2 = Inl TypeError)"
  proof (cases "k \<noteq> ''hasOwnProperty'' \<and> map_of (validations s) ''hasOwnProperty'' = None")
    case True
    then have hop: "map_of (validations s2) ''hasOwnProperty'' = None"
      by (auto simp add: vs2 map_of_put)
    have hf: "hasFailures (Some k) s2 = Inr True"
      by (simp add: hasFailures_def hasOwnProperty_plain[OF hop] reg2 inv2)
    have "getMessages (Some k) s2 = Inr (s2, Array (Suc a))"
      by (simp add: getMessages_def hf reg2 ms2)
    with True hf arr2 show ?thesis by simp
  next
    case False
    then have hop: "map_of (validations s2) ''hasOwnProperty'' \<noteq> None"
      by (auto simp add: vs2 map_of_put)
    have hf: "hasFailures (Some k) s2 = Inl TypeError"
      by (simp add: hasFailures_def hasOwnProperty_shadowed[OF hop])
    have "getMessages (Some k) s2 = Inl TypeError"
      by (simp add: getMessages_def hf)
    with False hf show ?thesis by auto
  qed
  show ?thesis
    using v i1 i2 ex rec1 rec2 q by blast
qed

theorem validateAll_records_both_failures_witness:
  "map_of (obj (Validator [(''foo'', String ''bar'')])) ''hasOwnProperty'' = None
   \<and> ''foo'' \<noteq> ''__proto__''
   \<and> holds sample_host (hasLength (Number (Fin 4)))
     (first_value ''foo'' Undefined (Validator [(''foo'', String ''bar'')])) = Inr False
   \<and> holds sample_host (hasLength (Number (Fin 5)))
     (first_value ''foo'' Undefined (Validator [(''foo'', String ''bar'')])) = Inr False
   \<and> recorded ''foo''
       (fst (exec sample_host
          (ValidateAll ''foo'' Undefined
             [Check (hasLength (Number (Fin 4))) (String ''error msg''),
              Check (hasLength (Number (Fin 5))) (String ''error msg 2'')])
          (Validator [(''foo'', String ''bar'')])))
     = Some (False, [String ''error msg'', String ''error msg 2''])"
  using foo_source_plain hasLength_4_fails_on_bar hasLength_5_fails_on_bar
    validateAll_records_both_failures
      [OF foo_source_plain foo_is_not_proto hasLength_4_fails_on_bar hasLength_5_fails_on_bar,
       of "String ''error msg''" "String ''error msg 2''"]
  by (auto simp del: exec.simps holds.simps)

section \<open>optional\<close>

text \<open>
  C4, as the claim states it, fails: \<open>optional()\<close> without a default on the value
  \<open>""\<close> replaces the value by the omitted default, \<open>undefined\<close>, so both
  \<open>getValue()\<close> of the chain and \<open>getValue("f")\<close> of the validator answer
  \<open>undefined\<close>, not \<open>""\<close>; and a following \<open>toInt()\<close>, which would compute
  not-a-number from \<open>undefined\<close>, does not run.
\<close>

theorem optional_without_default_counterexample:
  "snd (exec sample_host (Validate ''f'' Undefined [optional Undefined Undefined, getValue])
          (Validator [(''f'', String [])])) = Inr (Value Undefined)
   \<and> Validator_getValue (Some ''f'')
        (fst (exec sample_host (Validate ''f'' Undefined [optional Undefined Undefined])
          (Validator [(''f'', String [])]))) = Inr Undefined
   \<and> sanitize sample_host (toInt Undefined) Undefined = Inr (Number NaN)
   \<and> snd (exec sample_host
          (Validate ''f'' Undefined [optional Undefined Undefined, Convert (toInt Undefined), getValue])
          (Validator [(''f'', String [])])) = Inr (Value Undefined)"
  by (simp add: validate_def addValidation_eq strict_eq_def set_value_def
      VoidValidation_call_eq Validator_def Validator_getValue_def
      is_string_def sample_host_def sample_parse_def js_or_def)

text \<open>In the older revision \<open>optional()\<close> leaves a chain on the empty string
  active, so a following \<open>isAlpha()\<close> is evaluated there.\<close>

lemma lib_optional_on_empty_string:
  "val (objects s a) = String [] \<Longrightarrow> lib_optional h d a s = (s, Validation a)"
  by (simp add: lib_optional_def loose_eq_def bool_to_number_def)

text \<open>
  C4 (amended): \<open>optional()\<close>, not strict and without a default, on a chain whose value
  is the empty string replaces the value by \<open>undefined\<close> and returns an inert chain:
  \<open>getValue()\<close> answers \<open>undefined\<close>, the validity flag and the messages of the field
  are untouched (no failure), a following \<open>isAlpha()\<close> is skipped, and so is a
  following \<open>toInt()\<close>.
\<close>

theorem optional_without_default_on_empty_string:
  assumes "val (objects s a) = String []"
  shows "\<exists>s'. invoke h (optional Undefined Undefined) (Validation a) s = Inr (s', VoidValidation Undefined)
           \<and> invoke h getValue (VoidValidation Undefined) s' = Inr (s', Value Undefined)
           \<and> val (objects s' a) = Undefined
           \<and> isValid (objects s' a) = isValid (objects s a)
           \<and> messages (objects s' a) = messages (objects s a)
           \<and> arrays s' = arrays s
           \<and> validations s' = validations s
           \<and> invoke h (Check isAlpha m) (VoidValidation Undefined) s' = Inr (s', VoidValidation Undefined)
           \<and> invoke h (Convert (toInt radix)) (VoidValidation Undefined) s' = Inr (s', VoidValidation Undefined)"
  using assms by (auto simp add: strict_eq_def set_value_def VoidValidation_call_eq)

lemma empty_string_field:
  "val (objects (fst (exec sample_host (Validate ''f'' Undefined []) (Validator [(''f'', String [])]))) 0) = String []"
  by (simp add: validate_def addValidation_eq Validator_def strict_eq_def)

theorem optional_without_default_on_empty_string_witness:
  "val (objects (fst (exec sample_host (Validate ''f'' Undefined []) (Validator [(''f'', String [])]))) 0) = String []
   \<and> (\<exists>s'. invoke sample_host (optional Undefined Undefined) (Validation 0)
               (fst (exec sample_host (Validate ''f'' Undefined []) (Validator [(''f'', String [])])))
             = Inr (s', VoidValidation Undefined)
           \<and> val (objects s' 0) = Undefined
           \<and> invoke sample_host (Convert (toInt Undefined)) (VoidValidation Undefined) s'
             = Inr (s', VoidValidation Undefined))"
  using empty_string_field
    optional_without_default_on_empty_string [OF empty_string_field, of sample_host "String ''m''" Undefined]
  by blast

text \<open>
  C5: \<open>optional(d, true)\<close> on a chain whose value is \<open>undefined\<close> stores \<open>d\<close> as the
  value and returns an inert chain, so \<open>getValue()\<close> answers \<open>d\<close>, and the validity
  flag and the messages stay as they were. On any other value, the falsy \<open>false\<close>,
  \<open>0\<close>, \<open>""\<close> and \<open>null\<close> included, it returns the same active chain and changes
  nothing.
\<close>

theorem strict_optional:
  "(val (objects s a) = Undefined \<longrightarrow>
      (\<exists>s'. invoke h (optional d (Boolean True)) (Validation a) s = Inr (s', VoidValidation d)
           \<and> invoke h getValue (VoidValidation d) s' = Inr (s', Value d)
           \<and> val (objects s' a) = d
           \<and> isValid (objects s' a) = isValid (objects s a)
           \<and> messages (objects s' a) = messages (objects s a)
           \<and> arrays s' = arrays s
           \<and> validations s' = validations s))
   \<and> (val (objects s a) \<noteq> Undefined \<longrightarrow>
        invoke h (optional d (Boolean True)) (Validation a) s = Inr (s, Validation a))"
  by (auto simp add: strict_eq_def set_value_def VoidValidation_call_eq)

lemma absent_field:
  "val (objects (fst (exec sample_host (Validate ''e'' Undefined []) (Validator [(''d'', Boolean False)]))) 0) = Undefined"
  by (simp add: validate_def addValidation_eq Validator_def)

lemma false_field:
  "val (objects (fst (exec sample_host (Validate ''d'' Undefined []) (Validator [(''d'', Boolean False)]))) 0) = Boolean False"
  by (simp add: validate_def addValidation_eq Validator_def)

theorem strict_optional_witness:
  "val (objects (fst (exec sample_host (Validate ''e'' Undefined []) (Validator [(''d'', Boolean False)]))) 0) = Undefined
   \<and> (\<exists>s'. invoke sample_host (optional (Number (Fin 4)) (Boolean True)) (Validation 0)
               (fst (exec sample_host (Validate ''e'' Undefined []) (Validator [(''d'', Boolean False)])))
             = Inr (s', VoidValidation (Number (Fin 4)))
           \<and> val (objects s' 0) = Number (Fin 4))
   \<and> val (objects (fst (exec sample_host (Validate ''d'' Undefined []) (Validator [(''d'', Boolean False)]))) 0) = Boolean False
   \<and> invoke sample_host (optional (String ''apply'') (Boolean True)) (Validation 0)
         (fst (exec sample_host (Validate ''d'' Undefined []) (Validator [(''d'', Boolean False)])))
       = Inr (fst (exec sample_host (Validate ''d'' Undefined []) (Validator [(''d'', Boolean False)])), Validation 0)"
proof -
  let ?e = "fst (exec sample_host (Validate ''e'' Undefined []) (Validator [(''d'', Boolean False)]))"
  let ?d = "fst (exec sample_host (Validate ''d'' Undefined []) (Validator [(''d'', Boolean False)]))"
  have 1: "\<exists>s'. invoke sample_host (optional (Number (Fin 4)) (Boolean True)) (Validation 0) ?e
                   = Inr (s', VoidValidation (Number (Fin 4)))
                 \<and> val (objects s' 0) = Number (Fin 4)"
    using strict_optional [of ?e 0 sample_host "Number (Fin 4)"] absent_field by blast
  have 2: "invoke sample_host (optional (String ''apply'') (Boolean True)) (Validation 0) ?d
             = Inr (?d, Validation 0)"
    using strict_optional [of ?d 0 sample_host "String ''apply''"] false_field by simp
  show ?thesis
    using absent_field false_field 1 2 by blast
qed

section \<open>Queries of the session\<close>

text \<open>
  C6: for a name that was never validated \<open>hasFailures(name)\<close> is true (lemma
  \<open>never_validated_name\<close>, for every session that validated nothing under the name
  \<open>hasOwnProperty\<close>), but \<open>getMessages(name)\<close> does not
  answer an empty array: \<open>hasFailures(name)\<close> being true, it reads
  \<open>this.validations[name].messages\<close> of a name that has no entry, and throws. Here
  the source has the keys \<open>a\<close> and \<open>c\<close>, and only \<open>a\<close> was validated.
\<close>

theorem getMessages_of_unvalidated_name_throws:
  "\<exists>s c. validate ''a'' Undefined (Validator [(''a'', Number (Fin 1)), (''c'', Null)]) = Inr (s, c)
     \<and> hasFailures (Some ''c'') s = Inr True
     \<and> getMessages (Some ''c'') s = Inl TypeError"
  by (simp add: hasFailures_def getMessages_def hasOwnProperty_def Object_prototype_def
      validate_def addValidation_eq Validator_def)

text \<open>
  C7: \<open>getValue(name)\<close> answers the current value of the \<open>Validation\<close> registered
  under \<open>name\<close> (lemma \<open>Validator_getValue_answers_chain_value\<close> below), but for a
  name that was never validated it does not answer \<open>undefined\<close>: it calls
  \<open>getValue()\<close> on \<open>this.validations[name]\<close>, which has no entry for the name, and
  throws a \<open>TypeError\<close>, where \<open>hasFailures\<close> on the same session and name
  answers. Here the source has the key \<open>x\<close> and nothing was validated.
\<close>

theorem getValue_of_unvalidated_name_throws:
  "Validator_getValue (Some ''x'') (Validator [(''x'', String ''a'')]) = Inl TypeError
   \<and> hasFailures (Some ''x'') (Validator [(''x'', String ''a'')]) = Inr True"
  by (simp add: Validator_getValue_def hasFailures_def hasOwnProperty_def Validator_def)

subsection \<open>The value of a chain and the value of its field\<close>

lemma follows_current: "follows a c s \<Longrightarrow> current c s = val (objects s a)"
  by (cases c) (simp_all add: follows_def)

lemma invoke_follows:
  assumes "invoke h x c s = Inr (s', c')" and "follows a c s"
  shows "follows a c' s'"
proof (cases c)
  case (Validation b)
  with assms(2) have b: "b = a" by (simp add: follows_def)
  show ?thesis
  proof (cases x)
    case (Check p m)
    with assms(1) Validation b show ?thesis
      by (auto simp add: follows_def checkResult_def Let_def split: sum.splits if_splits)
  next
    case (optional d st)
    with assms(1) Validation b show ?thesis
      by (auto simp add: follows_def set_value_def split: if_splits)
  next
    case (Convert z)
    with assms(1) Validation b show ?thesis
      by (auto simp add: follows_def set_value_def split: sum.splits)
  next
    case getValue
    with assms(1) Validation b show ?thesis
      by (auto simp add: follows_def)
  qed
next
  case (VoidValidation v)
  with assms show ?thesis
    by (auto simp add: follows_def VoidValidation_call_eq)
next
  case (Value v)
  with assms show ?thesis by simp
qed

lemma calls_follows:
  "calls h cs c s = (s', Inr c') \<Longrightarrow> follows a c s \<Longrightarrow> follows a c' s'"
proof (induction cs arbitrary: c s)
  case Nil
  then show ?case by simp
next
  case (Cons x cs)
  show ?case
  proof (cases "invoke h x c s")
    case (Inl e)
    with Cons.prems show ?thesis by simp
  next
    case (Inr r)
    obtain s1 c1 where r: "r = (s1, c1)" by (cases r)
    from Inr r have i: "invoke h x c s = Inr (s1, c1)" by simp
    from Cons.prems(1) i have "calls h cs c1 s1 = (s', Inr c')" by simp
    from Cons.IH[OF this invoke_follows[OF i Cons.prems(2)]] show ?thesis .
  qed
qed

lemma exec_getValue:
  assumes "exec h st s = (s', Inr c)"
  shows "Validator_getValue (Some (stmt_key st)) s' = Inr (current c s')"
proof -
  obtain k trim cs stop
    where st: "st = Validate k trim cs \<and> stop \<or> st = ValidateAll k trim cs \<and> \<not> stop"
    by (cases st) auto
  have src: "map_of (obj s) ''hasOwnProperty'' = None"
  proof (rule ccontr)
    assume "map_of (obj s) ''hasOwnProperty'' \<noteq> None"
    from exec_shadowed[OF this, of h st] assms show False by simp
  qed
  obtain s0 where c0: "addValidation k stop (strict_eq trim (Boolean True)) s = Inr (s0, Validation (fresh s))"
    and reg0: "map_of (validations s0) k = Some (fresh s)"
    using src by (simp add: addValidation_eq map_of_put)
  from assms st c0 have cl: "calls h cs (Validation (fresh s)) s0 = (s', Inr c)"
    by (auto simp add: validate_def validateAll_def)
  have "follows (fresh s) (Validation (fresh s)) s0" by (simp add: follows_def)
  from calls_follows[OF cl this] have f: "current c s' = val (objects s' (fresh s))"
    by (rule follows_current)
  from cl have "s' = fst (calls h cs (Validation (fresh s)) s0)" by simp
  with calls_frame[of h cs "Validation (fresh s)" s0] have "validations s' = validations s0" by simp
  with reg0 have "map_of (validations s') k = Some (fresh s)" by simp
  moreover from st have "stmt_key st = k" by auto
  ultimately show ?thesis
    using f by (simp add: Validator_getValue_def)
qed

text \<open>\<open>getValue(name)\<close> answers the current value of the \<open>Validation\<close> registered
  under \<open>name\<close>, which is what \<open>getValue()\<close> of that chain answers, also at the end
  of the expression that registered it, whatever its calls were; and it answers
  \<open>undefined\<close> when it is called with \<open>undefined\<close> as the name.\<close>

lemma Validator_getValue_answers_chain_value:
  "Validator_getValue None s = Inr Undefined
   \<and> (map_of (validations s) k = Some a \<longrightarrow>
        Validator_getValue (Some k) s = Inr (val (objects s a))
      \<and> invoke h getValue (Validation a) s = Inr (s, Value (val (objects s a))))
   \<and> (exec h st s = (s', Inr c) \<longrightarrow>
        Validator_getValue (Some (stmt_key st)) s' = Inr (current c s'))"
  using exec_getValue [of h st s s' c] by (simp add: Validator_getValue_def)

text \<open>
  C8: the age check \<open>validate("age").isInt(m1).toInt().isGreaterThan(17, "too young")\<close>
  (\<open>greaterThan\<close> in the older revision), for every host whose \<open>strings.isInt\<close>
  accepts \<open>"19"\<close> and \<open>"15"\<close> and whose \<open>parseInt\<close> reads them in base ten. On the
  source \<open>{"age": "19"}\<close> the session has no failure and \<open>getValue("age")\<close> is the
  number 19; on \<open>{"age": "15"}\<close> the one message \<open>"too young"\<close> is recorded and
  \<open>getValue("age")\<close> is the number 15.
\<close>

theorem age_check_example:
  assumes "strings_isInt h ''19''"
      and "parseInt h (String ''19'') (Number (Fin 10)) = Number (Fin 19)"
      and "strings_isInt h ''15''"
      and "parseInt h (String ''15'') (Number (Fin 10)) = Number (Fin 15)"
  shows "(let s = run h [Validate ''age'' Undefined (age_calls m1)] (Validator [(''age'', String ''19'')])
          in hasFailures None s = Inr False \<and> hasFailures (Some ''age'') s = Inr False
             \<and> recorded ''age'' s = Some (True, [])
             \<and> Validator_getValue (Some ''age'') s = Inr (Number (Fin 19)))
       \<and> (let s = run h [Validate ''age'' Undefined (age_calls m1)] (Validator [(''age'', String ''15'')])
          in hasFailures None s = Inr True \<and> hasFailures (Some ''age'') s = Inr True
             \<and> recorded ''age'' s = Some (False, [String ''too young''])
             \<and> (\<exists>a. getMessages (Some ''age'') s = Inr (s, Array a)
                   \<and> arrays s a = [String ''too young''])
             \<and> Validator_getValue (Some ''age'') s = Inr (Number (Fin 15)))"
proof -
  have 1: "(let s = run h [Validate ''age'' Undefined (age_calls m1)] (Validator [(''age'', String ''19'')])
          in hasFailures None s = Inr False \<and> hasFailures (Some ''age'') s = Inr False
             \<and> recorded ''age'' s = Some (True, [])
             \<and> Validator_getValue (Some ''age'') s = Inr (Number (Fin 19)))"
    using assms(1,2)
    by (simp add: age_calls_def validate_def addValidation_eq Validator_def strict_eq_def
        checkResult_def set_value_def on_string_def is_string_def js_or_def
        js_gt_def less_than_def to_primitive_def hasFailures_def hasOwnProperty_def
        recorded_def Validator_getValue_def Let_def)
  have 2: "(let s = run h [Validate ''age'' Undefined (age_calls m1)] (Validator [(''age'', String ''15'')])
          in hasFailures None s = Inr True \<and> hasFailures (Some ''age'') s = Inr True
             \<and> recorded ''age'' s = Some (False, [String ''too young''])
             \<and> (\<exists>a. getMessages (Some ''age'') s = Inr (s, Array a)
                   \<and> arrays s a = [String ''too young''])
             \<and> Validator_getValue (Some ''age'') s = Inr (Number (Fin 15)))"
    using assms(3,4)
    by (simp add: age_calls_def validate_def addValidation_eq Validator_def strict_eq_def
        checkResult_def set_value_def on_string_def is_string_def js_or_def VoidValidation_call_eq
        js_gt_def less_than_def to_primitive_def hasFailures_def hasOwnProperty_def
        recorded_def Validator_getValue_def getMessages_def Let_def)
  from 1 2 show ?thesis by (rule conjI)
qed

lemma sample_host_reads_ages:
  "strings_isInt sample_host ''19''"
  "parseInt sample_host (String ''19'') (Number (Fin 10)) = Number (Fin 19)"
  "strings_isInt sample_host ''15''"
  "parseInt sample_host (String ''15'') (Number (Fin 10)) = Number (Fin 15)"
  by (simp_all add: sample_host_def is_numeral_def is_digit_def sample_parse_def decimal_def
      digit_value_def)

theorem age_check_example_witness:
  "strings_isInt sample_host ''19''
   \<and> parseInt sample_host (String ''19'') (Number (Fin 10)) = Number (Fin 19)
   \<and> strings_isInt sample_host ''15''
   \<and> parseInt sample_host (String ''15'') (Number (Fin 10)) = Number (Fin 15)
   \<and> Validator_getValue (Some ''age'')
       (run sample_host [Validate ''age'' Undefined (age_calls (String ''bad''))]
          (Validator [(''age'', String ''19'')])) = Inr (Number (Fin 19))
   \<and> recorded ''age''
       (run sample_host [Validate ''age'' Undefined (age_calls (String ''bad''))]
          (Validator [(''age'', String ''15'')])) = Some (False, [String ''too young''])"
  using sample_host_reads_ages
    age_check_example [OF sample_host_reads_ages, of "String ''bad''"]
  by (simp add: Let_def del: run.simps)

section \<open>Properties nobody validated\<close>

lemma indexOf_from_absent: "indexOf_from i xs x = - 1 \<longleftrightarrow> x \<notin> set xs"
  by (induction xs arbitrary: i) auto

lemma indexOf_absent: "indexOf xs x = - 1 \<longleftrightarrow> x \<notin> set xs"
  by (simp add: indexOf_def indexOf_from_absent)

text \<open>The pre-check of the lengths is sound because the keys of an object are distinct:
  more source keys than validated names leaves a source key that is not a validated
  name.\<close>

lemma more_keys_than_names:
  assumes "distinct ys" and "length xs < length ys"
  shows "\<exists>y \<in> set ys. y \<notin> set xs"
proof (rule ccontr)
  assume "\<not> (\<exists>y \<in> set ys. y \<notin> set xs)"
  then have "set ys \<subseteq> set xs" by blast
  then have "card (set ys) \<le> card (set xs)" by (simp add: card_mono)
  moreover have "card (set ys) = length ys" using assms(1) by (simp add: distinct_card)
  moreover have "card (set xs) \<le> length xs" by (rule card_length)
  ultimately show False using assms(2) by simp
qed

lemma hasUnvalidatedProperties_iff:
  assumes "distinct (map fst (obj s))"
  shows "hasUnvalidatedProperties s
     \<longleftrightarrow> (\<exists>k \<in> set (map fst (obj s)). k \<notin> set (map fst (validations s)))"
proof (cases "length (map fst (validations s)) < length (map fst (obj s))")
  case True
  from more_keys_than_names[OF assms True] True show ?thesis
    by (simp add: hasUnvalidatedProperties_def Let_def)
next
  case False
  then show ?thesis
    by (simp add: hasUnvalidatedProperties_def Let_def list_ex_iff indexOf_absent)
qed

text \<open>On a source that has a property named \<open>hasOwnProperty\<close> every statement
  throws, nothing is ever registered, and \<open>hasUnvalidatedProperties()\<close> is true.\<close>

lemma hasUnvalidatedProperties_shadowed:
  assumes "map_of source ''hasOwnProperty'' \<noteq> None"
  shows "run h prog (Validator source) = Validator source
       \<and> hasUnvalidatedProperties (run h prog (Validator source))"
proof -
  have "map_of (obj (Validator source)) ''hasOwnProperty'' \<noteq> None"
    using assms by (simp add: Validator_def)
  from run_shadowed[OF this] have r: "run h prog (Validator source) = Validator source" .
  from assms have "source \<noteq> []" by auto
  then have "hasUnvalidatedProperties (Validator source)"
    by (simp add: hasUnvalidatedProperties_def Validator_def)
  with r show ?thesis by (simp only: simp_thms)
qed

text \<open>
  C9: for every session over a source object (its keys are distinct, as the keys of an
  object are) that has no property named \<open>hasOwnProperty\<close> or \<open>__proto__\<close>,
  \<open>hasUnvalidatedProperties()\<close> - the spec's \<open>hasUncheckedProperties\<close> -
  is true exactly when some key of the source was the name of no \<open>validate\<close> or
  \<open>validateAll\<close> call, and so false when every key was validated at least once. (On
  a source with a property named \<open>hasOwnProperty\<close> every such call throws and the
  answer is true, lemma \<open>hasUnvalidatedProperties_shadowed\<close>.)
\<close>

theorem hasUnvalidatedProperties_exact:
  assumes "distinct (map fst source)"
      and "''hasOwnProperty'' \<notin> set (map fst source)"
      and "''__proto__'' \<notin> set (map fst source)"
  shows "hasUnvalidatedProperties (run h prog (Validator source))
     \<longleftrightarrow> (\<exists>k \<in> set (map fst source). k \<notin> stmt_key ` set prog)"
proof -
  have src: "map_of (obj (Validator source)) ''hasOwnProperty'' = None"
    using assms(2) by (simp add: Validator_def map_of_eq_None_iff)
  have o: "obj (run h prog (Validator source)) = source"
    by (simp add: run_obj Validator_def)
  have k: "set (map fst (validations (run h prog (Validator source)))) = stmt_key ` set prog"
    using run_keys[OF src, of h prog] by (simp add: Validator_def)
  from assms(1) o have "distinct (map fst (obj (run h prog (Validator source))))" by simp
  from hasUnvalidatedProperties_iff[OF this] show ?thesis
    by (simp only: o k)
qed

lemma two_keys_distinct:
  "distinct (map fst [(''email'', String ''foo.bar@example.com''), (''additional_key'', String ''value'')])"
  by simp

lemma two_keys_plain:
  "''hasOwnProperty'' \<notin> set (map fst [(''email'', String ''foo.bar@example.com''), (''additional_key'', String ''value'')])"
  "''__proto__'' \<notin> set (map fst [(''email'', String ''foo.bar@example.com''), (''additional_key'', String ''value'')])"
  by simp_all

theorem hasUnvalidatedProperties_exact_witness:
  "distinct (map fst [(''email'', String ''foo.bar@example.com''), (''additional_key'', String ''value'')])
   \<and> ''hasOwnProperty'' \<notin> set (map fst [(''email'', String ''foo.bar@example.com''), (''additional_key'', String ''value'')])
   \<and> ''__proto__'' \<notin> set (map fst [(''email'', String ''foo.bar@example.com''), (''additional_key'', String ''value'')])
   \<and> hasUnvalidatedProperties
       (run sample_host [Validate ''email'' Undefined [Check isDefined (String ''missing'')]]
          (Validator [(''email'', String ''foo.bar@example.com''), (''additional_key'', String ''value'')]))
   \<and> \<not> hasUnvalidatedProperties
       (run sample_host
          [Validate ''email'' Undefined [Check isDefined (String ''missing'')],
           ValidateAll ''additional_key'' Undefined [],
           Validate ''email'' (Boolean True) []]
          (Validator [(''email'', String ''foo.bar@example.com''), (''additional_key'', String ''value'')]))"
  using two_keys_distinct two_keys_plain
    hasUnvalidatedProperties_exact [OF two_keys_distinct two_keys_plain, of sample_host
      "[Validate ''email'' Undefined [Check isDefined (String ''missing'')]]"]
    hasUnvalidatedProperties_exact [OF two_keys_distinct two_keys_plain, of sample_host
      "[Validate ''email'' Undefined [Check isDefined (String ''missing'')],
        ValidateAll ''additional_key'' Undefined [],
        Validate ''email'' (Boolean True) []]"]
  by (simp del: run.simps)

section \<open>The arrays that getMessages() hands out\<close>

lemma slice_all_copies:
  assumes "slice_all vs s acc = (s', ms)"
      and "distinct (map fst acc @ map fst vs)"
      and "\<forall>(k, a) \<in> set vs. messages (objects s a) < fresh s"
  shows "objects s' = objects s \<and> validations s' = validations s \<and> obj s' = obj s
       \<and> fresh s \<le> fresh s'
       \<and> (\<forall>n < fresh s. arrays s' n = arrays s n)
       \<and> map fst ms = map fst acc @ map fst vs
       \<and> (\<forall>(k, n) \<in> set ms. (k, n) \<in> set acc
             \<or> (fresh s \<le> n \<and> (\<exists>a. (k, a) \<in> set vs \<and> arrays s' n = arrays s (messages (objects s a)))))"
  using assms
proof (induction vs arbitrary: s acc)
  case Nil
  then show ?case by auto
next
  case (Cons p vs)
  obtain k a where p: "p = (k, a)" by (cases p)
  define s1 where "s1 = s\<lparr>arrays := (arrays s)(fresh s := arrays s (messages (objects s a))), fresh := Suc (fresh s)\<rparr>"
  have knew: "k \<notin> fst ` set acc" using Cons.prems(2) p by auto
  have step: "slice_all vs s1 (acc @ [(k, fresh s)]) = (s', ms)"
    using Cons.prems(1) p knew by (simp add: s1_def Let_def put_new_key)
  have d1: "distinct (map fst (acc @ [(k, fresh s)]) @ map fst vs)"
    using Cons.prems(2) p by auto
  have b1: "\<forall>(k, a) \<in> set vs. messages (objects s1 a) < fresh s1"
    using Cons.prems(3) by (auto simp add: s1_def)
  note ih = Cons.IH[OF step d1 b1]
  have old: "\<forall>n < fresh s. arrays s' n = arrays s n"
    using ih by (simp add: s1_def)
  have head: "arrays s' (fresh s) = arrays s (messages (objects s a))"
    using ih by (simp add: s1_def)
  have "(k', n) \<in> set acc
          \<or> (fresh s \<le> n \<and> (\<exists>a'. (k', a') \<in> set (p # vs) \<and> arrays s' n = arrays s (messages (objects s a'))))"
    if m: "(k', n) \<in> set ms" for k' n
  proof -
    from ih m have "(k', n) \<in> set (acc @ [(k, fresh s)])
       \<or> (fresh s1 \<le> n \<and> (\<exists>a'. (k', a') \<in> set vs \<and> arrays s' n = arrays s1 (messages (objects s1 a'))))"
      by blast
    then consider "(k', n) \<in> set acc" | "k' = k \<and> n = fresh s"
      | a' where "fresh s1 \<le> n" "(k', a') \<in> set vs" "arrays s' n = arrays s1 (messages (objects s1 a'))"
      by auto
    then show ?thesis
    proof cases
      case 1
      then show ?thesis by simp
    next
      case 2
      with head p show ?thesis by auto
    next
      case 3
      from 3(2) Cons.prems(3) have "messages (objects s a') < fresh s" by auto
      with 3 have "arrays s' n = arrays s (messages (objects s a'))" by (simp add: s1_def)
      with 3 show ?thesis by (auto simp add: s1_def)
    qed
  qed
  with ih old p show ?case
    by (auto simp add: s1_def)
qed

lemma getMessages_all_frame:
  assumes al: "allocated s"
  shows "\<exists>s' ms. getMessages None s = Inr (s', Arrays ms)
          \<and> map fst ms = map fst (validations s)
          \<and> (\<forall>(k, n) \<in> set ms. \<exists>a. (k, a) \<in> set (validations s)
                 \<and> arrays s' n = arrays s (messages (objects s a))
                 \<and> n \<noteq> messages (objects s a))
          \<and> (\<forall>arr. (\<forall>n. n \<notin> snd ` set ms \<longrightarrow> arr n = arrays s' n) \<longrightarrow>
                 (\<forall>k. recorded k (s'\<lparr>arrays := arr\<rparr>) = recorded k s)
               \<and> (\<forall>name. hasFailures name (s'\<lparr>arrays := arr\<rparr>) = hasFailures name s))"
proof -
  obtain s' ms where sl: "slice_all (validations s) s [] = (s', ms)"
    by (cases "slice_all (validations s) s []")
  have d: "distinct (map fst [] @ map fst (validations s))"
    using al by (simp add: allocated_def)
  have b: "\<forall>(k, a) \<in> set (validations s). messages (objects s a) < fresh s"
    using al by (auto simp add: allocated_def list_all_iff)
  note c = slice_all_copies[OF sl d b]
  have gm: "getMessages None s = Inr (s', Arrays ms)"
    by (simp add: getMessages_def sl)
  have keys: "map fst ms = map fst (validations s)"
    using c by simp
  have new: "fresh s \<le> n \<and> (\<exists>a. (k, a) \<in> set (validations s)
                 \<and> arrays s' n = arrays s (messages (objects s a)))"
    if "(k, n) \<in> set ms" for k n
    using c that by auto
  have copies: "\<forall>(k, n) \<in> set ms. \<exists>a. (k, a) \<in> set (validations s)
                 \<and> arrays s' n = arrays s (messages (objects s a))
                 \<and> n \<noteq> messages (objects s a)"
  proof (clarify)
    fix k n
    assume m: "(k, n) \<in> set ms"
    from new[OF m] obtain a where a: "(k, a) \<in> set (validations s)"
      "arrays s' n = arrays s (messages (objects s a))" and n: "fresh s \<le> n"
      by blast
    from a(1) b have "messages (objects s a) < fresh s" by auto
    with n a show "\<exists>a. (k, a) \<in> set (validations s)
                 \<and> arrays s' n = arrays s (messages (objects s a))
                 \<and> n \<noteq> messages (objects s a)"
      by auto
  qed
  have frame: "(\<forall>k. recorded k (s'\<lparr>arrays := arr\<rparr>) = recorded k s)
               \<and> (\<forall>name. hasFailures name (s'\<lparr>arrays := arr\<rparr>) = hasFailures name s)"
    if arr: "\<forall>n. n \<notin> snd ` set ms \<longrightarrow> arr n = arrays s' n" for arr
  proof -
    have reg: "arr (messages (objects s a)) = arrays s (messages (objects s a))"
      if r: "map_of (validations s) k = Some a" for k a
    proof -
      from r have in_v: "(k, a) \<in> set (validations s)" by (rule map_of_SomeD)
      with b have lt: "messages (objects s a) < fresh s" by auto
      have "messages (objects s a) \<notin> snd ` set ms"
      proof
        assume "messages (objects s a) \<in> snd ` set ms"
        then obtain k' where "(k', messages (objects s a)) \<in> set ms" by force
        from new[OF this] lt show False by simp
      qed
      with arr have "arr (messages (objects s a)) = arrays s' (messages (objects s a))" by simp
      also have "\<dots> = arrays s (messages (objects s a))" using c lt by simp
      finally show ?thesis .
    qed
    have 1: "recorded k (s'\<lparr>arrays := arr\<rparr>) = recorded k s" for k
      using c reg[of k] by (simp add: recorded_def split: option.splits)
    have 2: "hasFailures name (s'\<lparr>arrays := arr\<rparr>) = hasFailures name s" for name
      using c by (simp add: hasFailures_def hasOwnProperty_def split: option.splits)
    from 1 2 show ?thesis by simp
  qed
  from gm keys copies frame show ?thesis by blast
qed

text \<open>
  C10: in every session \<open>getMessages()\<close> without a key answers one array for every
  registered field, in the order the fields were registered; each is a new array (not
  the field's own \<open>messages\<close> array) with the same elements. Whatever is then written
  into the returned arrays (\<open>arr\<close> differs from the store only at the returned
  addresses), every field's validity flag and messages, and every answer of
  \<open>hasFailures\<close>, are what they were. The returned mapping itself is a value of its
  own, which no object of the session refers to.
\<close>

theorem getMessages_hands_out_copies:
  assumes "s = run h prog (Validator source)"
  shows "\<exists>s' ms. getMessages None s = Inr (s', Arrays ms)
          \<and> map fst ms = map fst (validations s)
          \<and> (\<forall>(k, n) \<in> set ms. \<exists>a. (k, a) \<in> set (validations s)
                 \<and> arrays s' n = arrays s (messages (objects s a))
                 \<and> n \<noteq> messages (objects s a))
          \<and> (\<forall>arr. (\<forall>n. n \<notin> snd ` set ms \<longrightarrow> arr n = arrays s' n) \<longrightarrow>
                 (\<forall>k. recorded k (s'\<lparr>arrays := arr\<rparr>) = recorded k s)
               \<and> (\<forall>name. hasFailures name (s'\<lparr>arrays := arr\<rparr>) = hasFailures name s))"
  using assms getMessages_all_frame[OF run_allocated[OF allocated_Validator]] by simp

lemma two_failures_recorded:
  "recorded ''foo'' (run sample_host [two_failures] (Validator [(''foo'', String ''bar'')]))
     = Some (False, [String ''error msg'', String ''error msg 2''])"
  by (simp add: two_failures_def validateAll_def addValidation_eq Validator_def strict_eq_def
      is_string_def js_length_def checkResult_def recorded_def Let_def)

lemma two_failures_keys:
  "map fst (validations (run sample_host [two_failures] (Validator [(''foo'', String ''bar'')]))) = [''foo'']"
  by (simp add: two_failures_def validateAll_def addValidation_eq Validator_def strict_eq_def
      is_string_def js_length_def checkResult_def Let_def)

theorem getMessages_hands_out_copies_witness:
  "\<exists>s' ms. getMessages None (run sample_host [two_failures] (Validator [(''foo'', String ''bar'')]))
             = Inr (s', Arrays ms)
     \<and> map fst ms = [''foo'']
     \<and> recorded ''foo'' (s'\<lparr>arrays := (arrays s')(snd (hd ms) := [])\<rparr>)
         = Some (False, [String ''error msg'', String ''error msg 2''])"
proof -
  let ?s = "run sample_host [two_failures] (Validator [(''foo'', String ''bar'')])"
  from getMessages_hands_out_copies [of ?s sample_host "[two_failures]" "[(''foo'', String ''bar'')]"]
  obtain s' ms where gm: "getMessages None ?s = Inr (s', Arrays ms)"
    and keys: "map fst ms = map fst (validations ?s)"
    and frame: "\<forall>arr. (\<forall>n. n \<notin> snd ` set ms \<longrightarrow> arr n = arrays s' n) \<longrightarrow>
                 (\<forall>k. recorded k (s'\<lparr>arrays := arr\<rparr>) = recorded k ?s)
               \<and> (\<forall>name. hasFailures name (s'\<lparr>arrays := arr\<rparr>) = hasFailures name ?s)"
    by blast
  from keys have k1: "map fst ms = [''foo'']" by (simp only: two_failures_keys)
  then have "ms \<noteq> []" by auto
  then have "snd (hd ms) \<in> snd ` set ms" by simp
  then have "\<forall>n. n \<notin> snd ` set ms \<longrightarrow> ((arrays s')(snd (hd ms) := [])) n = arrays s' n"
    by auto
  with frame have "recorded ''foo'' (s'\<lparr>arrays := (arrays s')(snd (hd ms) := [])\<rparr>) = recorded ''foo'' ?s"
    by blast
  with gm k1 two_failures_recorded show ?thesis by auto
qed

end
